theory Spec2Isabelle
  imports Main
begin

text \<open>
  A model of \<^verbatim>\<open>models.py\<close>, the persistence mapping layer of the recorder: the
  attribute filter, the timestamp normaliser, the event and state row codecs and the run
  window query. The functions of \<^verbatim>\<open>models.py\<close> keep their names (\<open>Events.from_event\<close> is
  \<open>Events_from_event\<close>, a leading underscore is dropped). What they call in the Python
  standard library and in \<^verbatim>\<open>homeassistant.core\<close> is modelled beside them, each piece
  with a note of the library function it stands for.
\<close>

section \<open>Exceptions\<close>

text \<open>
  A raised exception is a value \<open>Inl e\<close> of a result \<open>exn + 'a\<close>. \<open>ArgumentError\<close> is
  that of SQLAlchemy, \<open>InvalidStateError\<close> that of \<^verbatim>\<open>homeassistant.exceptions\<close>, the
  others are built in; \<open>OverflowError\<close> is no \<open>ValueError\<close>. \<open>OutsideModel\<close> is not
  a Python exception: it marks an input on which the model says nothing (a float of
  more than 15 significant digits, a code point above 255, an entity identifier that is
  not a string).
\<close>

datatype exn = ValueError | KeyError | TypeError | AttributeError | IndexError
  | AssertionError | OverflowError | ArgumentError | InvalidStateError | OutsideModel

section \<open>Timestamps\<close>

text \<open>
  A Python \<open>datetime\<close> is modelled by its wall-clock reading, counted in microseconds
  from 0001-01-01T00:00:00, together with its \<open>tzinfo\<close>. The clock fields (year ...
  microsecond) are in one-to-one correspondence with the reading, so "the clock fields
  are unchanged" is "the reading is unchanged". A naive value has \<open>tzinfo = None\<close>.
  \<open>UTC\<close> is the object \<open>dt_util.UTC\<close>; any other zone is given by the offset (in
  microseconds) that it attaches to the value. The readings of the library's datetimes
  run from \<open>0\<close> (\<open>datetime.min\<close>) to \<open>MAX_WALL\<close> (\<open>datetime.max\<close>, the last microsecond
  of the year 9999); arithmetic whose result leaves this range raises \<open>OverflowError\<close>.
\<close>

datatype tzinfo = UTC | FixedOffset int

record datetime =
  wall :: int
  tzinfo :: "tzinfo option"

definition MAX_WALL :: int where
  "MAX_WALL = 315537897599999999"

definition in_range :: "int \<Rightarrow> bool" where
  "in_range w = (0 \<le> w \<and> w \<le> MAX_WALL)"

fun utcoffset :: "tzinfo \<Rightarrow> int" where
  "utcoffset UTC = 0"
| "utcoffset (FixedOffset d) = d"

text \<open>The absolute instant of a timestamp; a naive one is read as UTC.\<close>

definition instant :: "datetime \<Rightarrow> int" where
  "instant t = (case tzinfo t of None \<Rightarrow> wall t | Some z \<Rightarrow> wall t - utcoffset z)"

definition aware :: "datetime \<Rightarrow> bool" where
  "aware t = (tzinfo t \<noteq> None)"

text \<open>\<open>dt_util.UTC.localize(ts)\<close>, called on a naive value only: \<open>ts.replace(tzinfo=UTC)\<close>.\<close>

definition UTC_localize :: "datetime \<Rightarrow> datetime" where
  "UTC_localize ts = ts\<lparr>tzinfo := Some UTC\<rparr>"

text \<open>
  \<open>dt_util.as_utc(ts)\<close> on an aware value whose zone is \<open>z\<close>: the value itself when the
  zone is \<open>UTC\<close>, \<open>ts.astimezone(UTC)\<close> otherwise. \<open>astimezone\<close> first computes
  \<open>ts - ts.utcoffset()\<close>, and this subtraction raises \<open>OverflowError\<close> when the UTC
  reading is not that of a datetime.
\<close>

definition as_utc :: "tzinfo \<Rightarrow> datetime \<Rightarrow> exn + datetime" where
  "as_utc z ts =
     (if z = UTC then Inr ts
      else let w = wall ts - utcoffset z
           in if in_range w then Inr (ts\<lparr>wall := w, tzinfo := Some UTC\<rparr>)
              else Inl OverflowError)"

text \<open>\<^verbatim>\<open>_process_timestamp\<close> of \<^verbatim>\<open>models.py\<close>.\<close>

definition process_timestamp :: "datetime option \<Rightarrow> exn + datetime option" where
  "process_timestamp ts =
     (case ts of
        None \<Rightarrow> Inr None
      | Some t \<Rightarrow>
          (case tzinfo t of
             None \<Rightarrow> Inr (Some (UTC_localize t))
           | Some z \<Rightarrow>
               (case as_utc z t of Inl e \<Rightarrow> Inl e | Inr t' \<Rightarrow> Inr (Some t'))))"

subsection \<open>Decimal numerals and \<open>datetime.isoformat\<close>\<close>

text \<open>
  \<open>digits\<close> prints a natural number in decimal; \<open>show_int\<close> is \<open>str\<close> on an \<open>int\<close>.
  \<open>ord2ymd\<close> follows \<^verbatim>\<open>_ord2ymd\<close> of the standard library (its argument is the day
  count from 0001-01-01), and \<open>isoformat\<close> is \<open>datetime.isoformat()\<close>.
\<close>

definition digit_char :: "nat \<Rightarrow> char" where
  "digit_char n = char_of (48 + n)"

function digits :: "int \<Rightarrow> string" where
  "digits n = (if n < 10 then [digit_char (nat n)]
               else digits (n div 10) @ [digit_char (nat (n mod 10))])"
  by pat_completeness auto
termination
  by (relation "measure nat") auto

definition show_int :: "int \<Rightarrow> string" where
  "show_int i = (if i < 0 then CHR ''-'' # digits (- i) else digits i)"

definition DAYS_IN_MONTH :: "int list" where
  "DAYS_IN_MONTH = [0, 31, 28, 31, 30, 31, 30, 31, 31, 30, 31, 30, 31]"

definition DAYS_BEFORE_MONTH :: "int list" where
  "DAYS_BEFORE_MONTH = [0, 0, 31, 59, 90, 120, 151, 181, 212, 243, 273, 304, 334]"

definition ord2ymd :: "int \<Rightarrow> int \<times> int \<times> int" where
  "ord2ymd n0 =
     (let n400 = n0 div 146097; n = n0 mod 146097;
          n100 = n div 36524; n = n mod 36524;
          n4 = n div 1461; n = n mod 1461;
          n1 = n div 365; n = n mod 365;
          year = n400 * 400 + 1 + n100 * 100 + n4 * 4 + n1
      in if n1 = 4 \<or> n100 = 4 then (year - 1, 12, 31)
         else
           let leapyear = (n1 = 3 \<and> (n4 \<noteq> 24 \<or> n100 = 3));
               month = (n + 50) div 32;
               preceding = DAYS_BEFORE_MONTH ! nat month
                             + (if month > 2 \<and> leapyear then 1 else 0)
           in if preceding > n
              then let month' = month - 1;
                       preceding' = preceding
                         - (DAYS_IN_MONTH ! nat month' + (if month' = 2 \<and> leapyear then 1 else 0))
                   in (year, month', n - preceding' + 1)
              else (year, month, n - preceding + 1))"

definition pad :: "nat \<Rightarrow> int \<Rightarrow> string" where
  "pad w n = (let ds = digits n in replicate (w - length ds) (CHR ''0'') @ ds)"

definition format_offset :: "int \<Rightarrow> string" where
  "format_offset off =
     (let a = \<bar>off\<bar>;
          hh = a div 3600000000; mm = (a mod 3600000000) div 60000000;
          ss = (a mod 60000000) div 1000000; us = a mod 1000000
      in (if off < 0 then ''-'' else ''+'') @ pad 2 hh @ '':'' @ pad 2 mm
         @ (if ss \<noteq> 0 \<or> us \<noteq> 0 then '':'' @ pad 2 ss else [])
         @ (if us \<noteq> 0 then ''.'' @ pad 6 us else []))"

definition isoformat :: "datetime \<Rightarrow> string" where
  "isoformat t =
     (let w = wall t;
          day = w div 86400000000; r = w mod 86400000000;
          hh = r div 3600000000; mm = (r mod 3600000000) div 60000000;
          ss = (r mod 60000000) div 1000000; us = r mod 1000000
      in case ord2ymd day of
           (y, m, d) \<Rightarrow>
             pad 4 y @ ''-'' @ pad 2 m @ ''-'' @ pad 2 d @ ''T''
             @ pad 2 hh @ '':'' @ pad 2 mm @ '':'' @ pad 2 ss
             @ (if us \<noteq> 0 then ''.'' @ pad 6 us else [])
             @ (case tzinfo t of None \<Rightarrow> [] | Some z \<Rightarrow> format_offset (utcoffset z)))"

section \<open>Dictionaries\<close>

text \<open>
  A Python \<open>dict\<close> with string keys is an association list in insertion order whose keys
  are distinct (\<open>wf_dict\<close>). \<open>dict_set\<close> is \<open>d[k] = v\<close>: an existing key keeps its
  position. \<open>dict_of_items\<close> is the constructor \<open>dict(pairs)\<close>, \<open>dict_get\<close> is \<open>d.get(k)\<close>.
\<close>

type_synonym 'v dict = "(string \<times> 'v) list"

definition wf_dict :: "'v dict \<Rightarrow> bool" where
  "wf_dict d = distinct (map fst d)"

fun dict_set :: "'v dict \<Rightarrow> string \<Rightarrow> 'v \<Rightarrow> 'v dict" where
  "dict_set [] k v = [(k, v)]"
| "dict_set ((k', v') # d) k v =
     (if k' = k then (k', v) # d else (k', v') # dict_set d k v)"

definition dict_of_items :: "(string \<times> 'v) list \<Rightarrow> 'v dict" where
  "dict_of_items items = foldl (\<lambda>d (k, v). dict_set d k v) [] items"

definition dict_get :: "'v dict \<Rightarrow> string \<Rightarrow> 'v option" where
  "dict_get d k = map_of d k"

section \<open>The attribute filter\<close>

text \<open>
  The constants are those of \<^verbatim>\<open>homeassistant.const\<close>. \<open>filter_attributes\<close> is
  \<^verbatim>\<open>_filter_attributes\<close>: a list comprehension over \<open>items()\<close>, handed to \<open>dict\<close>.
\<close>

definition ATTR_ENTITY_ID :: string where "ATTR_ENTITY_ID = ''entity_id''"
definition ATTR_AREA_ID :: string where "ATTR_AREA_ID = ''area_id''"
definition ATTR_ENTITY_PICTURE :: string where "ATTR_ENTITY_PICTURE = ''entity_picture''"
definition ATTR_HIDDEN :: string where "ATTR_HIDDEN = ''hidden''"
definition ATTR_ICON :: string where "ATTR_ICON = ''icon''"
definition ATTR_DEVICE_CLASS :: string where "ATTR_DEVICE_CLASS = ''device_class''"
definition ATTR_EDITABLE :: string where "ATTR_EDITABLE = ''editable''"
definition EVENT_STATE_CHANGED :: string where "EVENT_STATE_CHANGED = ''state_changed''"

definition KEYS_TO_FILTER_FROM_DB :: "string list" where
  "KEYS_TO_FILTER_FROM_DB =
     [ATTR_ENTITY_ID, ATTR_AREA_ID, ATTR_ENTITY_PICTURE, ATTR_HIDDEN, ATTR_ICON,
      ATTR_DEVICE_CLASS, ATTR_EDITABLE]"

definition filter_attributes :: "'v dict \<Rightarrow> 'v dict" where
  "filter_attributes unfiltered_dict =
     dict_of_items
       (filter (\<lambda>(key, val). key \<notin> set KEYS_TO_FILTER_FROM_DB) unfiltered_dict)"

section \<open>JSON text\<close>

text \<open>
  The stored columns \<open>event_data\<close> and \<open>attributes\<close> are JSON text. \<open>render\<close> is the
  encoder of \<open>json.dumps\<close> with its default separators and \<open>ensure_ascii\<close>; \<open>parse\<close> is
  the decoder of \<open>json.loads\<close>. A character is a code point below 256; the decoder
  answers \<open>OutsideModel\<close> on an escape above code point 255 and on \<open>NaN\<close> and \<open>Infinity\<close>.
  The fuel of the decoder bounds its recursion, which makes at most two calls for a
  character of the text.
\<close>

subsection \<open>Floats\<close>

text \<open>
  A Python \<open>float\<close> is a binary double. The model takes the finite floats that are
  written with at most 15 significant decimal digits and lie between \<open>1e-307\<close> and
  \<open>1e308\<close> in magnitude, and the two zeros: on these \<open>repr\<close> and \<open>float()\<close> are inverse
  to each other, \<open>repr(float(text))\<close> being the decimal number that \<open>text\<close> writes. Such a
  float is given by its sign, its decimal digits as a number \<open>fl_man\<close> that does not end in
  \<open>0\<close>, and the power of ten \<open>fl_exp\<close> that multiplies it; \<open>wf_float\<close> says so. Other floats
  (more digits, \<open>inf\<close>, \<open>nan\<close>) are outside the model.

  \<open>float_repr\<close> is \<open>float.__repr__\<close>, which \<open>json.dumps\<close> prints: the digits with the point
  at its place when that place \<open>decpt\<close> is between \<open>-3\<close> and \<open>16\<close>, with \<open>.0\<close> after a whole
  number, and otherwise the form \<open>d.ddde+XX\<close> with an exponent of two digits at least.
  \<open>strip10\<close> removes the zeros at the end of a number of digits.
\<close>

datatype pyfloat = PyFloat (fl_neg: bool) (fl_man: int) (fl_exp: int)

definition float_in_model :: "int \<Rightarrow> int \<Rightarrow> bool" where
  "float_in_model m e =
     (let sci = int (length (digits m)) + e - 1
      in m < 10 ^ 15 \<and> - 307 \<le> sci \<and> sci \<le> 307)"

definition wf_float :: "pyfloat \<Rightarrow> bool" where
  "wf_float f =
     (0 \<le> fl_man f
      \<and> (if fl_man f = 0 then fl_exp f = 0
         else fl_man f mod 10 \<noteq> 0 \<and> float_in_model (fl_man f) (fl_exp f)))"

definition float_repr :: "pyfloat \<Rightarrow> string" where
  "float_repr f =
     (let ds = digits (fl_man f); k = int (length ds); decpt = k + fl_exp f
      in (if fl_neg f then ''-'' else [])
         @ (if decpt \<le> - 4 \<or> 16 < decpt then
              take 1 ds @ (if 1 < k then ''.'' @ drop 1 ds else [])
              @ ''e'' @ (if decpt - 1 < 0 then ''-'' else ''+'') @ pad 2 \<bar>decpt - 1\<bar>
            else if decpt \<le> 0 then ''0.'' @ replicate (nat (- decpt)) (CHR ''0'') @ ds
            else if k \<le> decpt then ds @ replicate (nat (decpt - k)) (CHR ''0'') @ ''.0''
            else take (nat decpt) ds @ ''.'' @ drop (nat decpt) ds))"

function strip10 :: "int \<Rightarrow> int \<Rightarrow> int \<times> int" where
  "strip10 m e = (if m \<noteq> 0 \<and> m mod 10 = 0 then strip10 (m div 10) (e + 1) else (m, e))"
  by pat_completeness auto
termination
  by (relation "measure (\<lambda>(m, e). nat \<bar>m\<bar>)") auto

subsection \<open>JSON values\<close>

datatype json = JNull | JBool bool | JInt int | JFloat pyfloat | JStr string
  | JArray "json list" | JObject "(string \<times> json) list"

subsection \<open>Printing\<close>

definition hex_char :: "nat \<Rightarrow> char" where
  "hex_char n = (if n < 10 then char_of (48 + n) else char_of (87 + n))"

definition escape_char :: "char \<Rightarrow> string" where
  "escape_char c =
     (if c = CHR 0x22 then [CHR 0x5C, CHR 0x22]
      else if c = CHR 0x5C then [CHR 0x5C, CHR 0x5C]
      else if c = CHR 0x0A then [CHR 0x5C, CHR ''n'']
      else if c = CHR 0x0D then [CHR 0x5C, CHR ''r'']
      else if c = CHR 0x09 then [CHR 0x5C, CHR ''t'']
      else if c = CHR 0x08 then [CHR 0x5C, CHR ''b'']
      else if c = CHR 0x0C then [CHR 0x5C, CHR ''f'']
      else if 32 \<le> (of_char c :: nat) \<and> (of_char c :: nat) \<le> 126 then [c]
      else [CHR 0x5C, CHR ''u'', CHR ''0'', CHR ''0'',
            hex_char (of_char c div 16), hex_char (of_char c mod 16)])"

definition encode_basestring_ascii :: "string \<Rightarrow> string" where
  "encode_basestring_ascii s = CHR 0x22 # concat (map escape_char s) @ [CHR 0x22]"

fun join :: "string \<Rightarrow> string list \<Rightarrow> string" where
  "join sep [] = []"
| "join sep [x] = x"
| "join sep (x # y # ys) = x @ sep @ join sep (y # ys)"

fun render :: "json \<Rightarrow> string" where
  "render JNull = ''null''"
| "render (JBool b) = (if b then ''true'' else ''false'')"
| "render (JInt i) = show_int i"
| "render (JFloat f) = float_repr f"
| "render (JStr s) = encode_basestring_ascii s"
| "render (JArray xs) = ''['' @ join '', '' (map render xs) @ '']''"
| "render (JObject kvs) =
     ''{'' @ join '', '' (map (\<lambda>(k, v). encode_basestring_ascii k @ '': '' @ render v) kvs) @ ''}''"

subsection \<open>Parsing\<close>

definition is_ws :: "char \<Rightarrow> bool" where
  "is_ws c = (c = CHR 0x20 \<or> c = CHR 0x09 \<or> c = CHR 0x0A \<or> c = CHR 0x0D)"

definition skip_ws :: "string \<Rightarrow> string" where
  "skip_ws s = dropWhile is_ws s"

definition is_digit :: "char \<Rightarrow> bool" where
  "is_digit c = (48 \<le> (of_char c :: nat) \<and> (of_char c :: nat) \<le> 57)"

definition digit_val :: "char \<Rightarrow> nat" where
  "digit_val c = of_char c - 48"

definition hex_val :: "char \<Rightarrow> nat option" where
  "hex_val c =
     (let n = (of_char c :: nat) in
      if 48 \<le> n \<and> n \<le> 57 then Some (n - 48)
      else if 97 \<le> n \<and> n \<le> 102 then Some (n - 87)
      else if 65 \<le> n \<and> n \<le> 70 then Some (n - 55)
      else None)"

definition hex4 :: "char \<Rightarrow> char \<Rightarrow> char \<Rightarrow> char \<Rightarrow> nat option" where
  "hex4 a b c d =
     (case (hex_val a, hex_val b, hex_val c, hex_val d) of
        (Some x, Some y, Some z, Some w) \<Rightarrow> Some (((x * 16 + y) * 16 + z) * 16 + w)
      | _ \<Rightarrow> None)"

definition unescape :: "char \<Rightarrow> char option" where
  "unescape e =
     (if e = CHR 0x22 then Some (CHR 0x22)
      else if e = CHR 0x5C then Some (CHR 0x5C)
      else if e = CHR ''/'' then Some (CHR ''/'')
      else if e = CHR ''b'' then Some (CHR 0x08)
      else if e = CHR ''f'' then Some (CHR 0x0C)
      else if e = CHR ''n'' then Some (CHR 0x0A)
      else if e = CHR ''r'' then Some (CHR 0x0D)
      else if e = CHR ''t'' then Some (CHR 0x09)
      else None)"

definition cons_result :: "char \<Rightarrow> exn + string \<times> string \<Rightarrow> exn + string \<times> string" where
  "cons_result c r = (case r of Inl e \<Rightarrow> Inl e | Inr (s, rest) \<Rightarrow> Inr (c # s, rest))"

fun scanstring :: "string \<Rightarrow> exn + string \<times> string" where
  "scanstring [] = Inl ValueError"
| "scanstring (c # cs) =
     (if c = CHR 0x22 then Inr ([], cs)
      else if c = CHR 0x5C then
        (case cs of
           [] \<Rightarrow> Inl ValueError
         | e # cs' \<Rightarrow>
             if e = CHR ''u'' then
               (case cs' of
                  a # b # c' # d # rest \<Rightarrow>
                    (case hex4 a b c' d of
                       None \<Rightarrow> Inl ValueError
                     | Some n \<Rightarrow>
                         if n < 256 then cons_result (char_of n) (scanstring rest)
                         else Inl OutsideModel)
                | _ \<Rightarrow> Inl ValueError)
             else
               (case unescape e of
                  None \<Rightarrow> Inl ValueError
                | Some ch \<Rightarrow> cons_result ch (scanstring cs')))
      else if (of_char c :: nat) < 32 then Inl ValueError
      else cons_result c (scanstring cs))"

definition digits_val :: "string \<Rightarrow> int" where
  "digits_val ds = foldl (\<lambda>acc c. acc * 10 + int (digit_val c)) 0 ds"

definition scan_unsigned :: "string \<Rightarrow> (int \<times> string) option" where
  "scan_unsigned s =
     (case s of
        [] \<Rightarrow> None
      | c # cs \<Rightarrow>
          if c = CHR ''0'' then Some (0, cs)
          else if is_digit c then Some (digits_val (takeWhile is_digit s), dropWhile is_digit s)
          else None)"

text \<open>
  A number is what the number pattern of the decoder matches: an optional minus sign and
  an integer part without a leading zero, then optionally a point with digits, then
  optionally an exponent (\<open>e\<close> or \<open>E\<close>, an optional sign, digits). \<open>scan_unsigned\<close> is the
  integer part, \<open>scan_frac\<close> the digits after the point and \<open>scan_exp\<close> the exponent.
  Without the two optional parts the number is an \<open>int\<close>, with one of them it is
  \<open>float(text)\<close>: \<open>float_result\<close> is the float of the digits \<open>m\<close> times ten to the \<open>e\<close>.
\<close>

definition scan_frac :: "string \<Rightarrow> string \<times> string" where
  "scan_frac r =
     (case r of
        c # d # r' \<Rightarrow>
          if c = CHR ''.'' \<and> is_digit d
          then (takeWhile is_digit (d # r'), dropWhile is_digit (d # r'))
          else ([], r)
      | _ \<Rightarrow> ([], r))"

definition scan_exp :: "string \<Rightarrow> (int \<times> string) option" where
  "scan_exp r =
     (case r of
        [] \<Rightarrow> None
      | c # r1 \<Rightarrow>
          if c = CHR ''e'' \<or> c = CHR ''E'' then
            (case r1 of
               [] \<Rightarrow> None
             | d # r2 \<Rightarrow>
                 if d = CHR ''+'' \<or> d = CHR ''-'' then
                   (case r2 of
                      [] \<Rightarrow> None
                    | d' # _ \<Rightarrow>
                        if is_digit d'
                        then Some ((if d = CHR ''-'' then - 1 else 1)
                                     * digits_val (takeWhile is_digit r2),
                                   dropWhile is_digit r2)
                        else None)
                 else if is_digit d
                 then Some (digits_val (takeWhile is_digit r1), dropWhile is_digit r1)
                 else None)
          else None)"

definition float_result :: "bool \<Rightarrow> int \<Rightarrow> int \<Rightarrow> string \<Rightarrow> exn + json \<times> string" where
  "float_result neg m0 e0 rest =
     (case strip10 m0 e0 of
        (m, e) \<Rightarrow>
          if m = 0 then Inr (JFloat (PyFloat neg 0 0), rest)
          else if float_in_model m e then Inr (JFloat (PyFloat neg m e), rest)
          else Inl OutsideModel)"

definition scan_number :: "string \<Rightarrow> exn + json \<times> string" where
  "scan_number s =
     (let neg = (case s of [] \<Rightarrow> False | c # _ \<Rightarrow> c = CHR ''-'');
          body = (if neg then tl s else s)
      in case scan_unsigned body of
           Some (n, r) \<Rightarrow>
             (case scan_frac r of
                (frac, r1) \<Rightarrow>
                  (case scan_exp r1 of
                     None \<Rightarrow>
                       if frac = [] then Inr (JInt (if neg then - n else n), r)
                       else float_result neg (n * 10 ^ length frac + digits_val frac)
                              (- int (length frac)) r1
                   | Some (x, r2) \<Rightarrow>
                       float_result neg (n * 10 ^ length frac + digits_val frac)
                         (x - int (length frac)) r2))
         | None \<Rightarrow>
             if take 3 s = ''NaN'' \<or> take 8 s = ''Infinity'' \<or> take 9 s = ''-Infinity''
             then Inl OutsideModel else Inl ValueError)"

fun parse_value :: "nat \<Rightarrow> string \<Rightarrow> exn + json \<times> string"
  and parse_elems :: "nat \<Rightarrow> string \<Rightarrow> exn + json list \<times> string"
  and parse_members :: "nat \<Rightarrow> string \<Rightarrow> exn + (string \<times> json) list \<times> string"
where
  "parse_value 0 s = Inl OutsideModel"
| "parse_value (Suc n) s =
     (case s of
        [] \<Rightarrow> Inl ValueError
      | c # cs \<Rightarrow>
          if c = CHR 0x22 then
            (case scanstring cs of Inl e \<Rightarrow> Inl e | Inr (str, r) \<Rightarrow> Inr (JStr str, r))
          else if c = CHR ''{'' then
            (case skip_ws cs of
               [] \<Rightarrow> Inl ValueError
             | c1 # r1 \<Rightarrow>
                 if c1 = CHR 0x22 then
                   (case parse_members n (c1 # r1) of
                      Inl e \<Rightarrow> Inl e
                    | Inr (pairs, r) \<Rightarrow> Inr (JObject (dict_of_items pairs), r))
                 else if c1 = CHR ''}'' then Inr (JObject [], r1)
                 else Inl ValueError)
          else if c = CHR ''['' then
            (case skip_ws cs of
               [] \<Rightarrow> Inl ValueError
             | c1 # r1 \<Rightarrow>
                 if c1 = CHR '']'' then Inr (JArray [], r1)
                 else (case parse_elems n (c1 # r1) of
                         Inl e \<Rightarrow> Inl e
                       | Inr (vs, r) \<Rightarrow> Inr (JArray vs, r)))
          else if take 4 s = ''null'' then Inr (JNull, drop 4 s)
          else if take 4 s = ''true'' then Inr (JBool True, drop 4 s)
          else if take 5 s = ''false'' then Inr (JBool False, drop 5 s)
          else scan_number s)"
| "parse_elems 0 s = Inl OutsideModel"
| "parse_elems (Suc n) s =
     (case parse_value n s of
        Inl e \<Rightarrow> Inl e
      | Inr (v, r) \<Rightarrow>
          (case skip_ws r of
             [] \<Rightarrow> Inl ValueError
           | c # r1 \<Rightarrow>
               if c = CHR '']'' then Inr ([v], r1)
               else if c = CHR '','' then
                 (case parse_elems n (skip_ws r1) of
                    Inl e \<Rightarrow> Inl e
                  | Inr (vs, r2) \<Rightarrow> Inr (v # vs, r2))
               else Inl ValueError))"
| "parse_members 0 s = Inl OutsideModel"
| "parse_members (Suc n) s =
     (case s of
        [] \<Rightarrow> Inl ValueError
      | q # s1 \<Rightarrow>
          if q \<noteq> CHR 0x22 then Inl ValueError
          else
            (case scanstring s1 of
               Inl e \<Rightarrow> Inl e
             | Inr (key, r) \<Rightarrow>
                 (case skip_ws r of
                    [] \<Rightarrow> Inl ValueError
                  | c # r1 \<Rightarrow>
                      if c \<noteq> CHR '':'' then Inl ValueError
                      else
                        (case parse_value n (skip_ws r1) of
                           Inl e \<Rightarrow> Inl e
                         | Inr (v, r2) \<Rightarrow>
                             (case skip_ws r2 of
                                [] \<Rightarrow> Inl ValueError
                              | c2 # r3 \<Rightarrow>
                                  if c2 = CHR ''}'' then Inr ([(key, v)], r3)
                                  else if c2 = CHR '','' then
                                    (case parse_members n (skip_ws r3) of
                                       Inl e \<Rightarrow> Inl e
                                     | Inr (pairs, r4) \<Rightarrow> Inr ((key, v) # pairs, r4))
                                  else Inl ValueError)))))"

definition parse :: "string \<Rightarrow> exn + json" where
  "parse s =
     (case parse_value (Suc (2 * length s)) (skip_ws s) of
        Inl e \<Rightarrow> Inl e
      | Inr (v, r) \<Rightarrow> if skip_ws r = [] then Inr v else Inl ValueError)"

subsection \<open>Auxiliary notions for the round trip\<close>

text \<open>
  A JSON value is well formed when the keys of each of its objects are distinct, as
  those of a dictionary are, and its floats are floats of the model. \<open>ok_tail\<close> holds of
  the text that can follow a value the encoder printed; \<open>member_text\<close> is one \<open>"key": value\<close> member of an object.
\<close>

fun wf_json :: "json \<Rightarrow> bool" where
  "wf_json (JFloat f) = wf_float f"
| "wf_json (JArray xs) = list_all wf_json xs"
| "wf_json (JObject kvs) = (distinct (map fst kvs) \<and> list_all (\<lambda>(k, v). wf_json v) kvs)"
| "wf_json _ = True"

definition ok_tail :: "string \<Rightarrow> bool" where
  "ok_tail r = (case r of [] \<Rightarrow> True | c # _ \<Rightarrow> c = CHR '','' \<or> c = CHR '']'' \<or> c = CHR ''}'')"

definition member_text :: "string \<times> json \<Rightarrow> string" where
  "member_text kv = (case kv of (k, v) \<Rightarrow> encode_basestring_ascii k @ '': '' @ render v)"

section \<open>Python values\<close>

text \<open>
  The values an event payload or an attribute mapping holds: \<open>None\<close>, booleans, integers,
  floats, strings, lists, dictionaries with string keys, timestamps and \<open>State\<close> objects. A
  \<open>State\<close> object (\<^verbatim>\<open>homeassistant.core.State\<close>) carries its entity identifier, state,
  attributes, the two timestamps and its context.
\<close>

record Context =
  ctx_user_id :: "string option"
  ctx_parent_id :: "string option"
  ctx_id :: "string option"

datatype 'v state_obj =
  StateObj (st_entity_id: string) (st_state: string) (st_attributes: "(string \<times> 'v) list")
    (st_last_changed: datetime) (st_last_updated: datetime) (st_context: Context)

datatype pyval = PNone | PBool bool | PInt int | PFloat pyfloat | PStr string
  | PList "pyval list" | PDict "(string \<times> pyval) list"
  | PDatetime datetime | PState "pyval state_obj"

type_synonym State = "pyval state_obj"

definition opt_str :: "string option \<Rightarrow> pyval" where
  "opt_str s = (case s of None \<Rightarrow> PNone | Some x \<Rightarrow> PStr x)"

definition Context_as_dict :: "Context \<Rightarrow> pyval dict" where
  "Context_as_dict c =
     [(''id'', opt_str (ctx_id c)), (''parent_id'', opt_str (ctx_parent_id c)),
      (''user_id'', opt_str (ctx_user_id c))]"

definition as_dict :: "State \<Rightarrow> pyval dict" where
  "as_dict s =
     [(''entity_id'', PStr (st_entity_id s)),
      (''state'', PStr (st_state s)),
      (''attributes'', PDict (st_attributes s)),
      (''last_changed'', PDatetime (st_last_changed s)),
      (''last_updated'', PDatetime (st_last_updated s)),
      (''context'', PDict (Context_as_dict (st_context s)))]"

text \<open>
  \<open>to_json\<close> is what the encoder \<^verbatim>\<open>JSONEncoder\<close> of \<^verbatim>\<open>homeassistant.helpers.json\<close>
  makes of a value before it is printed: a timestamp becomes its \<open>isoformat()\<close> string, an
  object with \<open>as_dict\<close> becomes that dictionary. \<open>of_json\<close> reads a decoded JSON value
  as a Python value.
\<close>

definition opt_json :: "string option \<Rightarrow> json" where
  "opt_json s = (case s of None \<Rightarrow> JNull | Some x \<Rightarrow> JStr x)"

definition Context_to_json :: "Context \<Rightarrow> json" where
  "Context_to_json c =
     JObject [(''id'', opt_json (ctx_id c)), (''parent_id'', opt_json (ctx_parent_id c)),
              (''user_id'', opt_json (ctx_user_id c))]"

fun to_json :: "pyval \<Rightarrow> json" where
  "to_json PNone = JNull"
| "to_json (PBool b) = JBool b"
| "to_json (PInt i) = JInt i"
| "to_json (PFloat f) = JFloat f"
| "to_json (PStr s) = JStr s"
| "to_json (PList xs) = JArray (map to_json xs)"
| "to_json (PDict kvs) = JObject (map (\<lambda>(k, v). (k, to_json v)) kvs)"
| "to_json (PDatetime d) = JStr (isoformat d)"
| "to_json (PState (StateObj e s attrs lc lu c)) =
     JObject
       [(''entity_id'', JStr e),
        (''state'', JStr s),
        (''attributes'', JObject (map (\<lambda>(k, v). (k, to_json v)) attrs)),
        (''last_changed'', JStr (isoformat lc)),
        (''last_updated'', JStr (isoformat lu)),
        (''context'', Context_to_json c)]"

fun of_json :: "json \<Rightarrow> pyval" where
  "of_json JNull = PNone"
| "of_json (JBool b) = PBool b"
| "of_json (JInt i) = PInt i"
| "of_json (JFloat f) = PFloat f"
| "of_json (JStr s) = PStr s"
| "of_json (JArray xs) = PList (map of_json xs)"
| "of_json (JObject kvs) = PDict (map (\<lambda>(k, v). (k, of_json v)) kvs)"

definition json_dumps :: "pyval \<Rightarrow> string" where
  "json_dumps v = render (to_json v)"

definition json_loads :: "string \<Rightarrow> exn + pyval" where
  "json_loads s = (case parse s of Inl e \<Rightarrow> Inl e | Inr j \<Rightarrow> Inr (of_json j))"

fun truthy :: "pyval \<Rightarrow> bool" where
  "truthy PNone = False"
| "truthy (PBool b) = b"
| "truthy (PInt i) = (i \<noteq> 0)"
| "truthy (PFloat f) = (fl_man f \<noteq> 0)"
| "truthy (PStr s) = (s \<noteq> [])"
| "truthy (PList xs) = (xs \<noteq> [])"
| "truthy (PDict d) = (d \<noteq> [])"
| "truthy (PDatetime t) = True"
| "truthy (PState s) = True"

definition lower_char :: "char \<Rightarrow> char" where
  "lower_char c =
     (let n = (of_char c :: nat) in
      if (65 \<le> n \<and> n \<le> 90) \<or> (192 \<le> n \<and> n \<le> 214) \<or> (216 \<le> n \<and> n \<le> 222)
      then char_of (n + 32) else c)"

definition lower :: "string \<Rightarrow> string" where
  "lower s = map lower_char s"

subsection \<open>Values that JSON keeps\<close>

text \<open>
  \<open>wf_pyval\<close>: every dictionary in the value (and every attribute mapping of a \<open>State\<close>
  in it) has distinct keys, as a Python \<open>dict\<close> has, and every float in it is a float of
  the model. \<open>json_native\<close>: moreover the value holds no timestamp and no \<open>State\<close> object,
  so it is built from \<open>None\<close>, booleans, integers, floats, strings, lists and dictionaries
  only. \<open>decoded v\<close> is the value that
  \<open>json.loads\<close> gives back for the text \<open>json.dumps\<close> printed from \<open>v\<close>.
\<close>

fun wf_pyval :: "pyval \<Rightarrow> bool" where
  "wf_pyval (PFloat f) = wf_float f"
| "wf_pyval (PList xs) = list_all wf_pyval xs"
| "wf_pyval (PDict kvs) = (distinct (map fst kvs) \<and> list_all (\<lambda>(k, v). wf_pyval v) kvs)"
| "wf_pyval (PState (StateObj e s attrs lc lu c)) =
     (distinct (map fst attrs) \<and> list_all (\<lambda>(k, v). wf_pyval v) attrs)"
| "wf_pyval _ = True"

fun json_native :: "pyval \<Rightarrow> bool" where
  "json_native (PFloat f) = wf_float f"
| "json_native (PList xs) = list_all json_native xs"
| "json_native (PDict kvs) = (distinct (map fst kvs) \<and> list_all (\<lambda>(k, v). json_native v) kvs)"
| "json_native (PDatetime t) = False"
| "json_native (PState s) = False"
| "json_native _ = True"

definition decoded :: "pyval \<Rightarrow> pyval" where
  "decoded v = of_json (to_json v)"

section \<open>Library objects\<close>

text \<open>
  \<open>split_entity_id\<close> is \<open>entity_id.split(".", 1)\<close>; \<open>index0\<close> is \<open>xs[0]\<close>.
  \<open>State_init\<close> is \<open>State.__init__\<close> called with \<open>temp_invalid_id_bypass=True\<close>: the state
  must be at most 255 characters (\<open>InvalidStateError\<close> otherwise), the identifier is
  lower-cased, \<open>attributes or {}\<close> is wrapped as a read-only mapping (\<open>TypeError\<close> on a
  value that is no mapping), a missing \<open>last_updated\<close> is the current time and a missing
  \<open>last_changed\<close> is \<open>last_updated\<close>. \<open>Event_init\<close> is \<open>Event.__init__\<close>. The current time
  is the parameter \<open>utcnow\<close>. \<open>EventOrigin\<close> is the enumeration with the values
  \<open>"LOCAL"\<close> and \<open>"REMOTE"\<close>; \<open>EventOrigin_of_value\<close> is the lookup \<open>EventOrigin(v)\<close>, which
  raises \<open>ValueError\<close> on any other value, as an \<open>enum.Enum\<close> does.
\<close>

definition split_entity_id :: "string \<Rightarrow> string list" where
  "split_entity_id entity_id =
     (case dropWhile (\<lambda>c. c \<noteq> CHR ''.'') entity_id of
        [] \<Rightarrow> [entity_id]
      | dot # rest \<Rightarrow> [takeWhile (\<lambda>c. c \<noteq> CHR ''.'') entity_id, rest])"

definition index0 :: "'a list \<Rightarrow> exn + 'a" where
  "index0 xs = (case xs of [] \<Rightarrow> Inl IndexError | x # _ \<Rightarrow> Inr x)"

definition State_domain :: "State \<Rightarrow> exn + string" where
  "State_domain s = index0 (split_entity_id (st_entity_id s))"

definition MAX_LENGTH_STATE_STATE :: nat where
  "MAX_LENGTH_STATE_STATE = 255"

definition valid_state :: "string \<Rightarrow> bool" where
  "valid_state state = (length state \<le> MAX_LENGTH_STATE_STATE)"

definition MappingProxyType :: "pyval \<Rightarrow> exn + pyval dict" where
  "MappingProxyType v = (case v of PDict d \<Rightarrow> Inr d | _ \<Rightarrow> Inl TypeError)"

definition State_init ::
  "datetime \<Rightarrow> string \<Rightarrow> string \<Rightarrow> pyval \<Rightarrow> datetime option \<Rightarrow> datetime option \<Rightarrow> Context
     \<Rightarrow> exn + State" where
  "State_init utcnow entity_id state attributes last_changed last_updated context =
     (if \<not> valid_state state then Inl InvalidStateError
      else
        case MappingProxyType (if truthy attributes then attributes else PDict []) of
          Inl e \<Rightarrow> Inl e
        | Inr attrs \<Rightarrow>
            let lu = (case last_updated of Some t \<Rightarrow> t | None \<Rightarrow> utcnow);
                lc = (case last_changed of Some t \<Rightarrow> t | None \<Rightarrow> lu)
            in Inr (StateObj (lower entity_id) state attrs lc lu context))"

datatype EventOrigin = Origin_local | Origin_remote

fun EventOrigin_str :: "EventOrigin \<Rightarrow> string" where
  "EventOrigin_str Origin_local = ''LOCAL''"
| "EventOrigin_str Origin_remote = ''REMOTE''"

definition EventOrigin_of_value :: "string \<Rightarrow> exn + EventOrigin" where
  "EventOrigin_of_value v =
     (if v = ''LOCAL'' then Inr Origin_local
      else if v = ''REMOTE'' then Inr Origin_remote
      else Inl ValueError)"

record 'd Event =
  ev_event_type :: string
  ev_data :: 'd
  ev_origin :: EventOrigin
  ev_time_fired :: datetime
  ev_context :: Context

definition Event_init ::
  "datetime \<Rightarrow> string \<Rightarrow> pyval \<Rightarrow> EventOrigin \<Rightarrow> datetime option \<Rightarrow> Context \<Rightarrow> pyval Event" where
  "Event_init utcnow event_type data origin time_fired context =
     \<lparr>ev_event_type = event_type,
      ev_data = (if truthy data then data else PDict []),
      ev_origin = origin,
      ev_time_fired = (case time_fired of Some t \<Rightarrow> t | None \<Rightarrow> utcnow),
      ev_context = context\<rparr>"

section \<open>Rows\<close>

text \<open>
  The mapped classes \<open>Events\<close>, \<open>States\<close> and \<open>RecorderRuns\<close>. A column the constructor call
  does not set is \<open>None\<close> until the row is stored. The column \<open>end\<close> is \<open>end'\<close> here.
\<close>

record Events =
  event_id :: "nat option"
  event_type :: string
  event_data :: string
  origin :: string
  time_fired :: "datetime option"
  created :: "datetime option"
  context_id :: "string option"
  context_user_id :: "string option"

record States =
  state_id :: "nat option"
  domain :: string
  entity_id :: string
  state :: string
  attributes :: string
  event_id :: "nat option"
  last_changed :: "datetime option"
  last_updated :: "datetime option"
  created :: "datetime option"
  context_id :: "string option"
  context_user_id :: "string option"

record RecorderRuns =
  run_id :: "nat option"
  start :: "datetime option"
  end' :: "datetime option"
  closed_incorrect :: bool
  created :: "datetime option"

section \<open>The codecs\<close>

text \<open>
  \<open>filter_state key\<close> is one round of the loop of \<^verbatim>\<open>_filter_state_change_event_data\<close>
  on the copied dictionary; the function itself first takes \<open>unfiltered_dict.copy()\<close>,
  which a list has and the other values have not. \<open>except_ValueError\<close> is the
  \<^verbatim>\<open>try ... except ValueError\<close> of the two \<open>to_native\<close> methods: the result is the value
  returned together with the messages logged. The arguments of the constructor call in
  \<open>to_native\<close> are evaluated from left to right, all of them inside the \<open>try\<close> block.
\<close>

definition filter_state :: "string \<Rightarrow> pyval dict \<Rightarrow> exn + pyval dict" where
  "filter_state key filtered_dict =
     (case dict_get filtered_dict key of
        Some (PState s) \<Rightarrow>
          (let d = as_dict s in
           case dict_get d ''attributes'' of
             None \<Rightarrow> Inl KeyError
           | Some (PDict a) \<Rightarrow>
               Inr (dict_set filtered_dict key
                      (PDict (dict_set d ''attributes'' (PDict (filter_attributes a)))))
           | Some _ \<Rightarrow> Inl AttributeError)
      | _ \<Rightarrow> Inr filtered_dict)"

definition filter_state_change_event_data :: "pyval \<Rightarrow> exn + pyval" where
  "filter_state_change_event_data unfiltered_dict =
     (case unfiltered_dict of
        PDict d \<Rightarrow>
          (case filter_state ''old_state'' d of
             Inl e \<Rightarrow> Inl e
           | Inr d1 \<Rightarrow>
               (case filter_state ''new_state'' d1 of
                  Inl e \<Rightarrow> Inl e
                | Inr d2 \<Rightarrow> Inr (PDict d2)))
      | PList xs \<Rightarrow>
          if PStr ''old_state'' \<in> set xs \<or> PStr ''new_state'' \<in> set xs then Inl TypeError
          else Inr (PList xs)
      | _ \<Rightarrow> Inl AttributeError)"

definition Events_from_event :: "pyval Event \<Rightarrow> exn + Events" where
  "Events_from_event event =
     (case (if ev_event_type event = EVENT_STATE_CHANGED
            then filter_state_change_event_data (ev_data event)
            else Inr (ev_data event)) of
        Inl e \<Rightarrow> Inl e
      | Inr payload \<Rightarrow>
          Inr \<lparr>Events.event_id = None,
               event_type = ev_event_type event,
               event_data = json_dumps payload,
               origin = EventOrigin_str (ev_origin event),
               time_fired = Some (ev_time_fired event),
               created = None,
               context_id = ctx_id (ev_context event),
               context_user_id = ctx_user_id (ev_context event)\<rparr>)"

definition except_ValueError :: "string \<Rightarrow> exn + 'a \<Rightarrow> exn + 'a option \<times> string list" where
  "except_ValueError message body =
     (case body of
        Inr x \<Rightarrow> Inr (Some x, [])
      | Inl e \<Rightarrow> if e = ValueError then Inr (None, [message]) else Inl e)"

definition Events_to_native :: "datetime \<Rightarrow> Events \<Rightarrow> exn + pyval Event option \<times> string list" where
  "Events_to_native utcnow self =
     (let context = \<lparr>ctx_user_id = Events.context_user_id self, ctx_parent_id = None,
                      ctx_id = Events.context_id self\<rparr>
      in except_ValueError ''Error converting to event: %s''
           (case json_loads (event_data self) of
              Inl e \<Rightarrow> Inl e
            | Inr data \<Rightarrow>
                (case EventOrigin_of_value (origin self) of
                   Inl e \<Rightarrow> Inl e
                 | Inr org \<Rightarrow>
                     (case process_timestamp (time_fired self) of
                        Inl e \<Rightarrow> Inl e
                      | Inr fired \<Rightarrow>
                          Inr (Event_init utcnow (event_type self) data org fired context)))))"

definition States_from_event :: "pyval Event \<Rightarrow> exn + States" where
  "States_from_event event =
     (case ev_data event of
        PDict data \<Rightarrow>
          (case dict_get data ''entity_id'' of
             None \<Rightarrow> Inl KeyError
           | Some entity_id' \<Rightarrow>
               (case (case dict_get data ''new_state'' of None \<Rightarrow> PNone | Some v \<Rightarrow> v) of
                  PNone \<Rightarrow>
                    (case entity_id' of
                       PStr e \<Rightarrow>
                         (case index0 (split_entity_id e) of
                            Inl err \<Rightarrow> Inl err
                          | Inr dmn \<Rightarrow>
                              Inr \<lparr>state_id = None, domain = dmn, entity_id = e, state = [],
                                   attributes = ''{}'', event_id = None,
                                   last_changed = Some (ev_time_fired event),
                                   last_updated = Some (ev_time_fired event),
                                   created = None,
                                   context_id = ctx_id (ev_context event),
                                   context_user_id = ctx_user_id (ev_context event)\<rparr>)
                     | _ \<Rightarrow> Inl AttributeError)
                | PState s \<Rightarrow>
                    (case State_domain s of
                       Inl err \<Rightarrow> Inl err
                     | Inr dmn \<Rightarrow>
                         (case entity_id' of
                            PStr e \<Rightarrow>
                              Inr \<lparr>state_id = None, domain = dmn, entity_id = e,
                                   state = st_state s,
                                   attributes =
                                     json_dumps (PDict (filter_attributes (st_attributes s))),
                                   event_id = None,
                                   last_changed = Some (st_last_changed s),
                                   last_updated = Some (st_last_updated s),
                                   created = None,
                                   context_id = ctx_id (ev_context event),
                                   context_user_id = ctx_user_id (ev_context event)\<rparr>
                          | _ \<Rightarrow> Inl OutsideModel))
                | _ \<Rightarrow> Inl AttributeError))
      | _ \<Rightarrow> Inl TypeError)"

definition States_to_native :: "datetime \<Rightarrow> States \<Rightarrow> exn + State option \<times> string list" where
  "States_to_native utcnow self =
     (let context = \<lparr>ctx_user_id = States.context_user_id self, ctx_parent_id = None,
                      ctx_id = States.context_id self\<rparr>
      in except_ValueError ''Error converting row to state: %s''
           (case json_loads (attributes self) of
              Inl e \<Rightarrow> Inl e
            | Inr attrs \<Rightarrow>
                (case process_timestamp (last_changed self) of
                   Inl e \<Rightarrow> Inl e
                 | Inr changed \<Rightarrow>
                     (case process_timestamp (last_updated self) of
                        Inl e \<Rightarrow> Inl e
                      | Inr updated \<Rightarrow>
                          State_init utcnow (entity_id self) (state self) attrs
                            changed updated context))))"

section \<open>The run window query\<close>





section \<open>The event codec on a store of objects\<close>

text \<open>
  The definitions above take a Python value as a tree, which cannot tell a dictionary that
  was copied from one that was changed in place. Here \<^verbatim>\<open>_filter_attributes\<close>,
  \<^verbatim>\<open>_filter_state_change_event_data\<close> and \<^verbatim>\<open>Events.from_event\<close> are written again over a
  store of objects. The store is the list of all objects, an address is an index in it;
  a value is an atom or the address of an object. \<open>alloc\<close> is the creation of an object,
  \<open>store_set\<close> is an assignment into an object that exists (\<^verbatim>\<open>d[key] = value\<close> replaces
  the dictionary at the address of \<open>d\<close>). A \<open>State\<close> object holds the address of its
  attributes mapping.

  \<open>read n h v\<close> is the tree that the value \<open>v\<close> stands for in the store \<open>h\<close>, followed
  through at most \<open>n\<close> addresses. \<open>as_dict_h\<close> is \<^verbatim>\<open>State.as_dict()\<close> of
  \<^verbatim>\<open>homeassistant.core\<close>: a new dictionary whose \<open>attributes\<close> entry is a new copy
  \<^verbatim>\<open>dict(self.attributes)\<close> and whose \<open>context\<close> entry is a new dictionary.
  \<open>filter_state_h key\<close> is one round of the loop of \<^verbatim>\<open>_filter_state_change_event_data\<close>,
  with its two assignments; the function first takes \<^verbatim>\<open>unfiltered_dict.copy()\<close>, which
  copies one level: the new dictionary holds the same values, and so the same addresses,
  as the old one. In \<open>Events_from_event_h\<close> the encoder walks the payload; a payload that
  is not a finite tree is refused by \<^verbatim>\<open>json.dumps\<close> with \<open>ValueError\<close> (circular reference).
  An address outside the store does not occur in a Python heap; where a function meets
  one the result is \<open>OutsideModel\<close>.

  \<open>extends h h'\<close>: the store \<open>h'\<close> is \<open>h\<close> with new objects after it, so every object of
  \<open>h\<close> is in \<open>h'\<close> at its address with its contents.
\<close>

type_synonym addr = nat

datatype hval = HNone | HBool bool | HInt int | HFloat pyfloat | HStr string
  | HDatetime datetime | Ref addr

datatype hobj = HDict "hval dict" | HList "hval list"
  | HState string string addr datetime datetime Context

type_synonym store = "hobj list"

definition alloc :: "store \<Rightarrow> hobj \<Rightarrow> store \<times> addr" where
  "alloc h obj = (h @ [obj], length h)"

definition lookup :: "store \<Rightarrow> addr \<Rightarrow> hobj option" where
  "lookup h a = (if a < length h then Some (h ! a) else None)"

definition store_set :: "store \<Rightarrow> addr \<Rightarrow> hobj \<Rightarrow> store" where
  "store_set h a obj = h[a := obj]"

fun read :: "nat \<Rightarrow> store \<Rightarrow> hval \<Rightarrow> pyval option" where
  "read n h HNone = Some PNone"
| "read n h (HBool b) = Some (PBool b)"
| "read n h (HInt i) = Some (PInt i)"
| "read n h (HFloat f) = Some (PFloat f)"
| "read n h (HStr s) = Some (PStr s)"
| "read n h (HDatetime t) = Some (PDatetime t)"
| "read 0 h (Ref a) = None"
| "read (Suc n) h (Ref a) =
     (case lookup h a of
        None \<Rightarrow> None
      | Some (HDict kvs) \<Rightarrow>
          map_option PDict (those (map (\<lambda>(k, v). map_option (Pair k) (read n h v)) kvs))
      | Some (HList xs) \<Rightarrow> map_option PList (those (map (read n h) xs))
      | Some (HState e st aa lc lu c) \<Rightarrow>
          (case read n h (Ref aa) of
             Some (PDict attrs) \<Rightarrow> Some (PState (StateObj e st attrs lc lu c))
           | _ \<Rightarrow> None))"

definition opt_hstr :: "string option \<Rightarrow> hval" where
  "opt_hstr s = (case s of None \<Rightarrow> HNone | Some x \<Rightarrow> HStr x)"

definition filter_attributes_h :: "store \<Rightarrow> addr \<Rightarrow> store \<times> (exn + addr)" where
  "filter_attributes_h h unfiltered_dict =
     (case lookup h unfiltered_dict of
        Some (HDict kvs) \<Rightarrow>
          (case alloc h (HDict (filter_attributes kvs)) of (h', a) \<Rightarrow> (h', Inr a))
      | Some _ \<Rightarrow> (h, Inl AttributeError)
      | None \<Rightarrow> (h, Inl OutsideModel))"

definition as_dict_h :: "store \<Rightarrow> addr \<Rightarrow> store \<times> (exn + addr)" where
  "as_dict_h h self =
     (case lookup h self of
        Some (HState e st aa lc lu c) \<Rightarrow>
          (case lookup h aa of
             Some (HDict attrs) \<Rightarrow>
               (case alloc h (HDict attrs) of
                  (h1, a1) \<Rightarrow>
                    (case alloc h1 (HDict [(''id'', opt_hstr (ctx_id c)),
                                           (''parent_id'', opt_hstr (ctx_parent_id c)),
                                           (''user_id'', opt_hstr (ctx_user_id c))]) of
                       (h2, a2) \<Rightarrow>
                         (case alloc h2 (HDict [(''entity_id'', HStr e), (''state'', HStr st),
                                                (''attributes'', Ref a1),
                                                (''last_changed'', HDatetime lc),
                                                (''last_updated'', HDatetime lu),
                                                (''context'', Ref a2)]) of
                            (h3, a3) \<Rightarrow> (h3, Inr a3))))
           | _ \<Rightarrow> (h, Inl OutsideModel))
      | Some _ \<Rightarrow> (h, Inl AttributeError)
      | None \<Rightarrow> (h, Inl OutsideModel))"

definition is_State_h :: "store \<Rightarrow> hval \<Rightarrow> bool" where
  "is_State_h h v =
     (case v of
        Ref a \<Rightarrow> (case lookup h a of Some (HState e st aa lc lu c) \<Rightarrow> True | _ \<Rightarrow> False)
      | _ \<Rightarrow> False)"

definition filter_state_h :: "string \<Rightarrow> store \<Rightarrow> addr \<Rightarrow> store \<times> (exn + unit)" where
  "filter_state_h key h filtered_dict =
     (case lookup h filtered_dict of
        Some (HDict kvs) \<Rightarrow>
          (case dict_get kvs key of
             Some (Ref sa) \<Rightarrow>
               if is_State_h h (Ref sa) then
                 (case as_dict_h h sa of
                    (h1, Inl e) \<Rightarrow> (h1, Inl e)
                  | (h1, Inr sd) \<Rightarrow>
                      (let h2 = store_set h1 filtered_dict (HDict (dict_set kvs key (Ref sd)))
                       in case lookup h2 sd of
                            Some (HDict skvs) \<Rightarrow>
                              (case dict_get skvs ''attributes'' of
                                 Some (Ref aa) \<Rightarrow>
                                   (case filter_attributes_h h2 aa of
                                      (h3, Inl e) \<Rightarrow> (h3, Inl e)
                                    | (h3, Inr fa) \<Rightarrow>
                                        (store_set h3 sd
                                           (HDict (dict_set skvs ''attributes'' (Ref fa))),
                                         Inr ()))
                               | Some _ \<Rightarrow> (h2, Inl AttributeError)
                               | None \<Rightarrow> (h2, Inl KeyError))
                          | _ \<Rightarrow> (h2, Inl OutsideModel)))
               else (h, Inr ())
           | _ \<Rightarrow> (h, Inr ()))
      | _ \<Rightarrow> (h, Inl OutsideModel))"

definition filter_state_change_event_data_h :: "store \<Rightarrow> hval \<Rightarrow> store \<times> (exn + hval)" where
  "filter_state_change_event_data_h h unfiltered_dict =
     (case unfiltered_dict of
        Ref a \<Rightarrow>
          (case lookup h a of
             Some (HDict kvs) \<Rightarrow>
               (case alloc h (HDict kvs) of
                  (h1, filtered_dict) \<Rightarrow>
                    (case filter_state_h ''old_state'' h1 filtered_dict of
                       (h2, Inl e) \<Rightarrow> (h2, Inl e)
                     | (h2, Inr u) \<Rightarrow>
                         (case filter_state_h ''new_state'' h2 filtered_dict of
                            (h3, Inl e) \<Rightarrow> (h3, Inl e)
                          | (h3, Inr u') \<Rightarrow> (h3, Inr (Ref filtered_dict)))))
           | Some (HList xs) \<Rightarrow>
               (case alloc h (HList xs) of
                  (h1, filtered_dict) \<Rightarrow>
                    if HStr ''old_state'' \<in> set xs \<or> HStr ''new_state'' \<in> set xs
                    then (h1, Inl TypeError)
                    else (h1, Inr (Ref filtered_dict)))
           | Some (HState e st aa lc lu c) \<Rightarrow> (h, Inl AttributeError)
           | None \<Rightarrow> (h, Inl OutsideModel))
      | _ \<Rightarrow> (h, Inl AttributeError))"

definition Events_from_event_h :: "store \<Rightarrow> hval Event \<Rightarrow> store \<times> (exn + Events)" where
  "Events_from_event_h h event =
     (case (if ev_event_type event = EVENT_STATE_CHANGED
            then filter_state_change_event_data_h h (ev_data event)
            else (h, Inr (ev_data event))) of
        (h', Inl e) \<Rightarrow> (h', Inl e)
      | (h', Inr payload) \<Rightarrow>
          (case read (Suc (length h')) h' payload of
             None \<Rightarrow> (h', Inl ValueError)
           | Some v \<Rightarrow>
               (h', Inr \<lparr>Events.event_id = None,
                         event_type = ev_event_type event,
                         event_data = json_dumps v,
                         origin = EventOrigin_str (ev_origin event),
                         time_fired = Some (ev_time_fired event),
                         created = None,
                         context_id = ctx_id (ev_context event),
                         context_user_id = ctx_user_id (ev_context event)\<rparr>)))"

definition extends :: "store \<Rightarrow> store \<Rightarrow> bool" where
  "extends h h' = (length h \<le> length h' \<and> take (length h) h' = h)"

section \<open>The payload of a state-changed event, as described\<close>

text \<open>
  What the specification says the payload of a state-changed event is: the event data
  in which an \<open>old_state\<close> or \<open>new_state\<close> entry that is a \<open>State\<close> is replaced by its
  \<open>as_dict()\<close> form with the attributes filtered, every other entry as it is. These
  definitions are compared with \<open>filter_state_change_event_data\<close> below.
\<close>

definition filtered_state_dict :: "State \<Rightarrow> pyval" where
  "filtered_state_dict s =
     PDict (dict_set (as_dict s) ''attributes'' (PDict (filter_attributes (st_attributes s))))"

definition spec_payload_value :: "string \<Rightarrow> pyval \<Rightarrow> pyval" where
  "spec_payload_value k v =
     (if k = ''old_state'' \<or> k = ''new_state''
      then (case v of PState s \<Rightarrow> filtered_state_dict s | _ \<Rightarrow> v)
      else v)"

definition spec_payload :: "pyval dict \<Rightarrow> pyval dict" where
  "spec_payload d = map (\<lambda>(k, v). (k, spec_payload_value k v)) d"

section \<open>Properties of the dictionary operations\<close>

lemma dict_set_fresh: "k \<notin> fst ` set d \<Longrightarrow> dict_set d k v = d @ [(k, v)]"
  by (induction d) auto

lemma foldl_dict_set_distinct:
  "distinct (map fst (acc @ items)) \<Longrightarrow>
   foldl (\<lambda>d (k, v). dict_set d k v) acc items = acc @ items"
proof (induction items arbitrary: acc)
  case Nil
  then show ?case by simp
next
  case (Cons kv items)
  obtain k v where kv: "kv = (k, v)" by (cases kv)
  from Cons.prems kv have fresh: "k \<notin> fst ` set acc" by auto
  from Cons.prems kv have "distinct (map fst ((acc @ [(k, v)]) @ items))" by simp
  from Cons.IH [OF this] show ?case
    by (simp add: kv dict_set_fresh [OF fresh])
qed

lemma dict_of_items_distinct: "distinct (map fst items) \<Longrightarrow> dict_of_items items = items"
  using foldl_dict_set_distinct [of "[]" items] by (simp add: dict_of_items_def)

lemma distinct_filter_keys: "distinct (map fst d) \<Longrightarrow> distinct (map fst (filter P d))"
  by (induction d) auto

lemma filter_attributes_wf:
  "wf_dict A \<Longrightarrow>
   filter_attributes A = filter (\<lambda>(key, val). key \<notin> set KEYS_TO_FILTER_FROM_DB) A"
  by (simp add: filter_attributes_def wf_dict_def dict_of_items_distinct distinct_filter_keys)

lemma wf_filter_attributes: "wf_dict A \<Longrightarrow> wf_dict (filter_attributes A)"
  by (simp add: filter_attributes_wf) (simp add: wf_dict_def distinct_filter_keys)

lemma keys_filter_attributes:
  "wf_dict A \<Longrightarrow> fst ` set (filter_attributes A) \<inter> set KEYS_TO_FILTER_FROM_DB = {}"
  by (auto simp: filter_attributes_wf)

lemma map_of_filter_keys:
  "map_of (filter (\<lambda>(key, val). key \<notin> S) A) k = (if k \<in> S then None else map_of A k)"
  by (induction A) auto

lemma filter_attributes_idem:
  "wf_dict A \<Longrightarrow> filter_attributes (filter_attributes A) = filter_attributes A"
  using filter_attributes_wf [OF wf_filter_attributes, of A]
  by (simp add: filter_attributes_wf)

lemma KEYS_TO_FILTER_FROM_DB_set:
  "set KEYS_TO_FILTER_FROM_DB
     = {''entity_id'', ''area_id'', ''entity_picture'', ''hidden'', ''icon'',
        ''device_class'', ''editable''}"
  by (simp add: KEYS_TO_FILTER_FROM_DB_def ATTR_ENTITY_ID_def ATTR_AREA_ID_def
      ATTR_ENTITY_PICTURE_def ATTR_HIDDEN_def ATTR_ICON_def ATTR_DEVICE_CLASS_def
      ATTR_EDITABLE_def)

lemma KEYS_TO_FILTER_FROM_DB_distinct:
  "length KEYS_TO_FILTER_FROM_DB = 7 \<and> distinct KEYS_TO_FILTER_FROM_DB"
  by (simp add: KEYS_TO_FILTER_FROM_DB_def ATTR_ENTITY_ID_def ATTR_AREA_ID_def
      ATTR_ENTITY_PICTURE_def ATTR_HIDDEN_def ATTR_ICON_def ATTR_DEVICE_CLASS_def
      ATTR_EDITABLE_def)

lemma dict_get_filter_attributes:
  "wf_dict A \<Longrightarrow>
   dict_get (filter_attributes A) k
     = (if k \<in> set KEYS_TO_FILTER_FROM_DB then None else dict_get A k)"
  by (simp add: filter_attributes_wf dict_get_def map_of_filter_keys)

lemma map_fst_filter_keys:
  "map fst (filter (\<lambda>(key, val). P key) A) = filter P (map fst A)"
  by (induction A) auto

lemma keys_order_filter_attributes:
  "wf_dict A \<Longrightarrow>
   map fst (filter_attributes A)
     = filter (\<lambda>key. key \<notin> set KEYS_TO_FILTER_FROM_DB) (map fst A)"
  by (simp add: filter_attributes_wf map_fst_filter_keys)

section \<open>Decoding what the encoder printed\<close>

declare digits.simps [simp del]

lemma char_of_eq: "(char_of (n::nat) = c) = (n mod 256 = of_char c)"
  by (simp add: char_of_eq_iff take_bit_eq_mod)

lemma digit_val_digit_char: "d < 10 \<Longrightarrow> digit_val (digit_char d) = d"
  by (simp add: digit_val_def digit_char_def)

lemma is_digit_digit_char: "d < 10 \<Longrightarrow> is_digit (digit_char d)"
  by (simp add: is_digit_def digit_char_def)

lemma digit_char_zero: "d < 10 \<Longrightarrow> (digit_char d = CHR ''0'') = (d = 0)"
proof -
  assume d: "d < 10"
  have "digit_char d = CHR ''0'' \<Longrightarrow> d = 0"
  proof -
    assume "digit_char d = CHR ''0''"
    then have "(of_char (digit_char d) :: nat) = of_char (CHR ''0'')" by simp
    with d show "d = 0" by (simp add: digit_char_def)
  qed
  moreover have "d = 0 \<Longrightarrow> digit_char d = CHR ''0''"
    by (simp add: digit_char_def char_of_eq)
  ultimately show ?thesis by blast
qed

lemma digits_val_snoc: "digits_val (ds @ [c]) = digits_val ds * 10 + int (digit_val c)"
  by (simp add: digits_val_def)

lemma digits_val_digits: "0 \<le> n \<Longrightarrow> digits_val (digits n) = n"
proof (induction n rule: digits.induct)
  case (1 n)
  show ?case
  proof (cases "n < 10")
    case True
    with "1.prems" show ?thesis
      by (subst digits.simps) (simp add: digits_val_def digit_val_digit_char)
  next
    case False
    with 1 have "digits_val (digits (n div 10)) = n div 10" by simp
    moreover have "nat (n mod 10) < 10" by simp
    ultimately show ?thesis using False
      by (subst digits.simps) (simp add: digits_val_snoc digit_val_digit_char)
  qed
qed

lemma digits_all_digit: "list_all is_digit (digits n)"
proof (induction n rule: digits.induct)
  case (1 n)
  have "nat (n mod 10) < 10" by simp
  with 1 show ?case
    by (subst digits.simps) (simp add: is_digit_digit_char)
qed

lemma digits_nonempty: "digits n \<noteq> []"
  by (subst digits.simps) simp

lemma hd_digits_zero: "0 \<le> n \<Longrightarrow> (hd (digits n) = CHR ''0'') = (n = 0)"
proof (induction n rule: digits.induct)
  case (1 n)
  show ?case
  proof (cases "n < 10")
    case True
    with "1.prems" have "(digit_char (nat n) = CHR ''0'') = (nat n = 0)"
      by (intro digit_char_zero) simp
    with True "1.prems" show ?thesis
      by (subst digits.simps) simp
  next
    case False
    with 1 have "(hd (digits (n div 10)) = CHR ''0'') = (n div 10 = 0)" by simp
    with False show ?thesis
      by (subst digits.simps) (simp add: digits_nonempty)
  qed
qed

lemma ok_tail_not_digit: "ok_tail r \<Longrightarrow> takeWhile is_digit r = [] \<and> dropWhile is_digit r = r"
  by (cases r) (auto simp: ok_tail_def is_digit_def)

lemma ok_tail_not_float: "ok_tail r \<Longrightarrow> scan_frac r = ([], r) \<and> scan_exp r = None"
  by (cases r) (auto simp: ok_tail_def scan_frac_def scan_exp_def split: list.splits)

lemma takeWhile_all_append:
  "list_all P xs \<Longrightarrow> takeWhile P (xs @ ys) = xs @ takeWhile P ys"
  by (induction xs) auto

lemma dropWhile_all_append:
  "list_all P xs \<Longrightarrow> dropWhile P (xs @ ys) = dropWhile P ys"
  by (induction xs) auto

lemma scan_unsigned_digits:
  assumes "ok_tail r" "0 \<le> n"
  shows "scan_unsigned (digits n @ r) = Some (n, r)"
proof (cases "n = 0")
  case True
  have "digits 0 = ''0''" by (subst digits.simps) (simp add: digit_char_def char_of_eq)
  with True show ?thesis by (simp add: scan_unsigned_def)
next
  case False
  obtain c cs where ds: "digits n = c # cs"
    using digits_nonempty [of n] by (cases "digits n") auto
  from False hd_digits_zero [OF assms(2)] ds have c0: "c \<noteq> CHR ''0''" by simp
  from digits_all_digit [of n] ds have cd: "is_digit c" by simp
  have tw: "takeWhile is_digit (digits n @ r) = digits n"
    and dw: "dropWhile is_digit (digits n @ r) = r"
    using ok_tail_not_digit [OF assms(1)] digits_all_digit [of n]
    by (simp_all add: takeWhile_all_append dropWhile_all_append)
  have "scan_unsigned (digits n @ r)
          = Some (digits_val (takeWhile is_digit (digits n @ r)),
                  dropWhile is_digit (digits n @ r))"
    using c0 cd by (simp add: scan_unsigned_def ds)
  then show ?thesis by (simp add: tw dw digits_val_digits [OF assms(2)])
qed

lemma hd_digits_is_digit: "is_digit (hd (digits n))"
  using digits_all_digit [of n] digits_nonempty [of n] by (cases "digits n") auto

subsection \<open>Floats\<close>

lemma digits_val_append:
  "digits_val (a @ b) = digits_val a * 10 ^ length b + digits_val b"
proof (induction b rule: rev_induct)
  case Nil
  then show ?case by (simp add: digits_val_def)
next
  case (snoc c b)
  have "digits_val (a @ b @ [c]) = digits_val (a @ b) * 10 + int (digit_val c)"
    using digits_val_snoc [of "a @ b" c] by simp
  with snoc show ?case by (simp add: digits_val_snoc algebra_simps)
qed

lemma digits_val_Nil: "digits_val [] = 0"
  by (simp add: digits_val_def)

lemma digits_val_zeros: "digits_val (replicate j (CHR ''0'')) = 0"
  by (induction j) (simp_all add: digits_val_def digit_val_def)

lemma is_digit_zero: "is_digit (CHR ''0'')"
  by (simp add: is_digit_def)

lemma list_all_zeros: "list_all is_digit (replicate j (CHR ''0''))"
  by (induction j) (simp_all add: is_digit_zero)

lemma strip10_keep: "m mod 10 \<noteq> 0 \<Longrightarrow> strip10 m e = (m, e)"
  by (subst strip10.simps) simp

lemma strip10_zero: "strip10 0 e = (0, e)"
  by (subst strip10.simps) simp

lemma strip10_pow:
  "m mod 10 \<noteq> 0 \<Longrightarrow> strip10 (m * 10 ^ j) e = (m, e + int j)"
proof (induction j arbitrary: e)
  case 0
  then show ?case by (simp add: strip10_keep)
next
  case (Suc j)
  from Suc.prems have m0: "m \<noteq> 0" by auto
  have "strip10 (m * 10 ^ Suc j) e = strip10 (m * 10 ^ j) (e + 1)"
    using m0 by (subst strip10.simps) simp
  with Suc.IH [OF Suc.prems, of "e + 1"] show ?case by simp
qed

lemma no_digit_drop: "takeWhile is_digit r = [] \<Longrightarrow> dropWhile is_digit r = r"
  by (cases r) (auto split: if_splits)

lemma scan_unsigned_text:
  assumes "ip \<noteq> []" "list_all is_digit ip" "hd ip \<noteq> CHR ''0'' \<or> ip = ''0''"
    and "takeWhile is_digit r = []"
  shows "scan_unsigned (ip @ r) = Some (digits_val ip, r)"
proof (cases "ip = ''0''")
  case True
  then show ?thesis by (simp add: scan_unsigned_def digits_val_def digit_val_def)
next
  case False
  with assms(1,3) obtain c cs where ip: "ip = c # cs" and c0: "c \<noteq> CHR ''0''"
    by (cases ip) auto
  from assms(2) ip have cd: "is_digit c" by simp
  have tw: "takeWhile is_digit (ip @ r) = ip" and dw: "dropWhile is_digit (ip @ r) = r"
    using assms(2,4) by (simp_all add: takeWhile_all_append dropWhile_all_append no_digit_drop)
  have "scan_unsigned (ip @ r)
          = Some (digits_val (takeWhile is_digit (ip @ r)), dropWhile is_digit (ip @ r))"
    using c0 cd by (simp add: scan_unsigned_def ip)
  then show ?thesis by (simp add: tw dw)
qed

lemma scan_frac_text:
  assumes "fs \<noteq> []" "list_all is_digit fs" "takeWhile is_digit r = []"
  shows "scan_frac (CHR ''.'' # fs @ r) = (fs, r)"
proof -
  from assms(1) obtain d ds where fs: "fs = d # ds" by (cases fs) auto
  with assms(2) have d: "is_digit d" by simp
  have "takeWhile is_digit (fs @ r) = fs" "dropWhile is_digit (fs @ r) = r"
    using assms(2,3) by (simp_all add: takeWhile_all_append dropWhile_all_append no_digit_drop)
  with d fs show ?thesis by (simp add: scan_frac_def)
qed

lemma scan_frac_none: "c \<noteq> CHR ''.'' \<Longrightarrow> scan_frac (c # r) = ([], c # r)"
  by (simp add: scan_frac_def split: list.splits)

lemma pad2_digits: "list_all is_digit (pad 2 a)"
  by (simp add: pad_def Let_def digits_all_digit list_all_zeros)

lemma pad2_nonempty: "pad 2 a \<noteq> []"
  by (simp add: pad_def Let_def digits_nonempty)

lemma digits_val_pad2: "0 \<le> a \<Longrightarrow> digits_val (pad 2 a) = a"
  by (simp add: pad_def Let_def digits_val_append digits_val_zeros digits_val_digits)

lemma scan_exp_text:
  assumes "0 \<le> a" "takeWhile is_digit r = []"
  shows "scan_exp (CHR ''e'' # (if neg then ''-'' else ''+'') @ pad 2 a @ r)
           = Some ((if neg then - a else a), r)"
proof -
  obtain d ds where p: "pad 2 a = d # ds"
    using pad2_nonempty [of a] by (cases "pad 2 a") auto
  with pad2_digits [of a] have d: "is_digit d" by simp
  have "takeWhile is_digit (pad 2 a @ r) = pad 2 a" "dropWhile is_digit (pad 2 a @ r) = r"
    using pad2_digits [of a] assms(2)
    by (simp_all add: takeWhile_all_append dropWhile_all_append no_digit_drop)
  then have tw: "takeWhile is_digit (d # ds @ r) = d # ds"
    and dw: "dropWhile is_digit (d # ds @ r) = r"
    by (simp_all add: p)
  from digits_val_pad2 [OF assms(1)] p have dv: "digits_val (d # ds) = a" by simp
  show ?thesis
    using d tw dw dv by (cases neg) (simp_all add: scan_exp_def p)
qed

lemma ok_tail_no_digit: "ok_tail r \<Longrightarrow> takeWhile is_digit r = []"
  by (simp add: ok_tail_not_digit)

lemma scan_exp_none: "c \<noteq> CHR ''e'' \<Longrightarrow> c \<noteq> CHR ''E'' \<Longrightarrow> scan_exp (c # r) = None"
  by (simp add: scan_exp_def)

lemma not_digit_chars:
  "\<not> is_digit (CHR ''.'')" "\<not> is_digit (CHR ''e'')" "\<not> is_digit (CHR ''-'')"
  by (simp_all add: is_digit_def)

lemma scan_number_signed:
  assumes "ip \<noteq> []" "list_all is_digit ip" "scan_unsigned (ip @ t) = Some (n, r)"
  shows "scan_number ((if neg then ''-'' else []) @ ip @ t)
           = (case scan_frac r of
                (frac, r1) \<Rightarrow>
                  (case scan_exp r1 of
                     None \<Rightarrow>
                       if frac = [] then Inr (JInt (if neg then - n else n), r)
                       else float_result neg (n * 10 ^ length frac + digits_val frac)
                              (- int (length frac)) r1
                   | Some (x, r2) \<Rightarrow>
                       float_result neg (n * 10 ^ length frac + digits_val frac)
                         (x - int (length frac)) r2))"
proof -
  from assms obtain c cs where ip: "ip = c # cs" and c: "is_digit c" by (cases ip) auto
  then have ne: "c \<noteq> CHR ''-''" by (auto simp: is_digit_def)
  show ?thesis
  proof (cases neg)
    case True
    then have n: "neg = True" by simp
    show ?thesis unfolding n by (simp add: scan_number_def assms(3))
  next
    case False
    then have n: "neg = False" by simp
    show ?thesis unfolding n using assms(3) ne by (simp add: scan_number_def ip)
  qed
qed

lemma scan_number_float_plain:
  assumes "ip \<noteq> []" "list_all is_digit ip" "hd ip \<noteq> CHR ''0'' \<or> ip = ''0''"
    and "fs \<noteq> []" "list_all is_digit fs" "ok_tail r"
  shows "scan_number ((if neg then ''-'' else []) @ ip @ CHR ''.'' # fs @ r)
           = float_result neg (digits_val (ip @ fs)) (- int (length fs)) r"
proof -
  have u: "scan_unsigned (ip @ CHR ''.'' # fs @ r) = Some (digits_val ip, CHR ''.'' # fs @ r)"
    by (rule scan_unsigned_text [OF assms(1,2,3)]) (simp add: not_digit_chars)
  have f: "scan_frac (CHR ''.'' # fs @ r) = (fs, r)"
    by (rule scan_frac_text [OF assms(4,5) ok_tail_no_digit [OF assms(6)]])
  have x: "scan_exp r = None" using ok_tail_not_float [OF assms(6)] by simp
  show ?thesis
    by (simp only: scan_number_signed [OF assms(1,2) u] f x option.case prod.case assms(4)
        if_False digits_val_append)
qed

lemma scan_number_float_exp:
  assumes "ip \<noteq> []" "list_all is_digit ip" "hd ip \<noteq> CHR ''0'' \<or> ip = ''0''"
    and "list_all is_digit fs" "0 \<le> a" "ok_tail r"
  shows "scan_number ((if neg then ''-'' else []) @ ip @ (if fs = [] then [] else CHR ''.'' # fs)
                      @ CHR ''e'' # (if xneg then ''-'' else ''+'') @ pad 2 a @ r)
           = float_result neg (digits_val (ip @ fs)) ((if xneg then - a else a) - int (length fs)) r"
proof -
  let ?ex = "CHR ''e'' # (if xneg then ''-'' else ''+'') @ pad 2 a @ r"
  have x: "scan_exp ?ex = Some ((if xneg then - a else a), r)"
    by (rule scan_exp_text [OF assms(5) ok_tail_no_digit [OF assms(6)]])
  show ?thesis
  proof (cases "fs = []")
    case True
    have u: "scan_unsigned (ip @ ?ex) = Some (digits_val ip, ?ex)"
      by (rule scan_unsigned_text [OF assms(1,2,3)]) (simp add: not_digit_chars)
    have f: "scan_frac ?ex = ([], ?ex)" by (rule scan_frac_none) simp
    have "scan_number ((if neg then ''-'' else []) @ ip @ ?ex)
            = float_result neg (digits_val ip) (if xneg then - a else a) r"
      by (simp only: scan_number_signed [OF assms(1,2) u] f x option.case prod.case)
         (simp add: digits_val_Nil)
    with True show ?thesis by simp
  next
    case False
    have u: "scan_unsigned (ip @ CHR ''.'' # fs @ ?ex) = Some (digits_val ip, CHR ''.'' # fs @ ?ex)"
      by (rule scan_unsigned_text [OF assms(1,2,3)]) (simp add: not_digit_chars)
    have f: "scan_frac (CHR ''.'' # fs @ ?ex) = (fs, ?ex)"
      by (rule scan_frac_text [OF False assms(4)]) (simp add: not_digit_chars)
    have "scan_number ((if neg then ''-'' else []) @ ip @ CHR ''.'' # fs @ ?ex)
            = float_result neg (digits_val (ip @ fs)) ((if xneg then - a else a) - int (length fs)) r"
      by (simp only: scan_number_signed [OF assms(1,2) u] f x option.case prod.case
          digits_val_append)
    with False show ?thesis by simp
  qed
qed

lemma float_result_wf:
  assumes "wf_float (PyFloat neg m e)"
  shows "float_result neg m e r = Inr (JFloat (PyFloat neg m e), r)"
proof (cases "m = 0")
  case True
  with assms show ?thesis by (simp add: float_result_def wf_float_def strip10_zero)
next
  case False
  with assms have "m mod 10 \<noteq> 0" "float_in_model m e" by (simp_all add: wf_float_def)
  with False show ?thesis by (simp add: float_result_def strip10_keep)
qed

lemma digits_zero: "digits 0 = ''0''"
  by (subst digits.simps) (simp add: digit_char_def char_of_eq)

lemma digits_val_zeros_Cons: "digits_val (CHR ''0'' # replicate j (CHR ''0'')) = 0"
  using digits_val_zeros [of "Suc j"] by simp

lemma list_all_take: "list_all P xs \<Longrightarrow> list_all P (take n xs)"
  by (auto simp: list_all_iff dest: in_set_takeD)

lemma list_all_drop: "list_all P xs \<Longrightarrow> list_all P (drop n xs)"
  by (auto simp: list_all_iff dest: in_set_dropD)

lemma hd_take: "0 < n \<Longrightarrow> xs \<noteq> [] \<Longrightarrow> hd (take n xs) = hd xs"
  by (cases xs; cases n) simp_all

lemma scan_number_float_repr:
  assumes wf: "wf_float f" and r: "ok_tail r"
  shows "scan_number (float_repr f @ r) = Inr (JFloat f, r)"
proof -
  obtain neg m e where f: "f = PyFloat neg m e" by (cases f)
  let ?ds = "digits m"
  let ?k = "int (length ?ds)"
  let ?decpt = "?k + e"
  let ?sign = "if neg then ''-'' else []"
  from wf f have m0: "0 \<le> m" by (simp add: wf_float_def)
  have dig: "list_all is_digit ?ds" by (rule digits_all_digit)
  have ne: "?ds \<noteq> []" by (rule digits_nonempty)
  have val: "digits_val ?ds = m" by (rule digits_val_digits [OF m0])
  have k1: "1 \<le> ?k" using ne by (cases ?ds) simp_all
  note res = float_result_wf [OF wf [unfolded f], of r]
  show ?thesis
  proof (cases "m = 0")
    case True
    with wf f have e0: "e = 0" by (simp add: wf_float_def)
    have shape: "float_repr f @ r = ?sign @ ''0'' @ CHR ''.'' # ''0'' @ r"
      by (simp add: float_repr_def f True e0 digits_zero)
    have "scan_number (?sign @ ''0'' @ CHR ''.'' # ''0'' @ r)
            = float_result neg (digits_val (''0'' @ ''0'')) (- int (length ''0'')) r"
      by (rule scan_number_float_plain [OF _ _ _ _ _ r]) (simp_all add: is_digit_zero)
    also have "\<dots> = Inr (JFloat (PyFloat neg 0 0), r)"
      by (simp add: float_result_def digits_val_def digit_val_def strip10_zero)
    finally show ?thesis unfolding shape by (simp add: f True e0)
  next
    case False
    with wf f have m10: "m mod 10 \<noteq> 0" by (simp add: wf_float_def)
    from False hd_digits_zero [OF m0] have hd0: "hd ?ds \<noteq> CHR ''0''" by simp
    show ?thesis
    proof (cases "?decpt \<le> - 4 \<or> 16 < ?decpt")
      case True
      let ?ip = "take 1 ?ds" and ?fs = "drop 1 ?ds"
      let ?a = "\<bar>?decpt - 1\<bar>"
      let ?xneg = "?decpt - 1 < 0"
      have fs_empty: "(?fs = []) = (\<not> 1 < ?k)" using k1 by auto
      have shape: "float_repr f @ r
                   = ?sign @ ?ip @ (if ?fs = [] then [] else CHR ''.'' # ?fs)
                     @ CHR ''e'' # (if ?xneg then ''-'' else ''+'') @ pad 2 ?a @ r"
        using True by (simp add: float_repr_def f Let_def fs_empty)
      have ip: "?ip \<noteq> []" "list_all is_digit ?ip" "hd ?ip \<noteq> CHR ''0'' \<or> ?ip = ''0''"
        using ne dig hd0 by (simp_all add: list_all_take hd_take)
      have "scan_number (?sign @ ?ip @ (if ?fs = [] then [] else CHR ''.'' # ?fs)
                     @ CHR ''e'' # (if ?xneg then ''-'' else ''+'') @ pad 2 ?a @ r)
              = float_result neg (digits_val (?ip @ ?fs))
                  ((if ?xneg then - ?a else ?a) - int (length ?fs)) r"
        by (rule scan_number_float_exp [OF ip list_all_drop [OF dig] _ r]) simp
      also have "digits_val (?ip @ ?fs) = m" by (simp add: val)
      also have "(if ?xneg then - ?a else ?a) - int (length ?fs) = e"
        using k1 by (auto simp: of_nat_diff)
      finally show ?thesis unfolding shape by (simp add: res f)
    next
      case nexp: False
      show ?thesis
      proof (cases "?decpt \<le> 0")
        case True
        let ?z = "replicate (nat (- ?decpt)) (CHR ''0'')"
        have shape: "float_repr f @ r = ?sign @ ''0'' @ CHR ''.'' # (?z @ ?ds) @ r"
          using nexp True by (simp add: float_repr_def f Let_def)
        have "scan_number (?sign @ ''0'' @ CHR ''.'' # (?z @ ?ds) @ r)
                = float_result neg (digits_val (''0'' @ ?z @ ?ds)) (- int (length (?z @ ?ds))) r"
          by (rule scan_number_float_plain [OF _ _ _ _ _ r])
             (simp_all add: is_digit_zero ne dig list_all_zeros)
        also have "digits_val (''0'' @ ?z @ ?ds) = m"
          using digits_val_append [of "replicate (Suc (nat (- ?decpt))) (CHR ''0'')" ?ds]
          by (simp add: digits_val_zeros_Cons val)
        also have "- int (length (?z @ ?ds)) = e" using True by simp
        finally show ?thesis unfolding shape by (simp add: res f)
      next
        case pos: False
        show ?thesis
        proof (cases "?k \<le> ?decpt")
          case True
          let ?z = "replicate (nat (?decpt - ?k)) (CHR ''0'')"
          have shape: "float_repr f @ r = ?sign @ (?ds @ ?z) @ CHR ''.'' # ''0'' @ r"
            using nexp pos True by (simp add: float_repr_def f Let_def)
          have hd': "hd (?ds @ ?z) \<noteq> CHR ''0''" using ne hd0 by simp
          have "scan_number (?sign @ (?ds @ ?z) @ CHR ''.'' # ''0'' @ r)
                  = float_result neg (digits_val ((?ds @ ?z) @ ''0'')) (- int (length ''0'')) r"
            by (rule scan_number_float_plain [OF _ _ _ _ _ r])
               (simp_all add: is_digit_zero ne dig list_all_zeros hd0)
          also have "digits_val ((?ds @ ?z) @ ''0'') = m * 10 ^ Suc (nat (?decpt - ?k))"
            using digits_val_append [of ?ds "replicate (Suc (nat (?decpt - ?k))) (CHR ''0'')"]
            by (simp add: digits_val_zeros_Cons val replicate_append_same)
          finally have "scan_number (float_repr f @ r)
                  = float_result neg (m * 10 ^ Suc (nat (?decpt - ?k))) (- 1) r"
            by (simp add: shape)
          also have "\<dots> = Inr (JFloat (PyFloat neg m e), r)"
          proof -
            have "strip10 (m * 10 ^ Suc (nat (?decpt - ?k))) (- 1) = (m, e)"
              using strip10_pow [OF m10, of "Suc (nat (?decpt - ?k))" "- 1"] True by simp
            moreover from wf f False have "float_in_model m e" by (simp add: wf_float_def)
            ultimately show ?thesis using False by (simp add: float_result_def)
          qed
          finally show ?thesis by (simp only: f)
        next
          case mid: False
          let ?ip = "take (nat ?decpt) ?ds" and ?fs = "drop (nat ?decpt) ?ds"
          have shape: "float_repr f @ r = ?sign @ ?ip @ CHR ''.'' # ?fs @ r"
            using nexp pos mid by (simp add: float_repr_def f Let_def)
          have ip: "?ip \<noteq> []" "list_all is_digit ?ip" "hd ?ip \<noteq> CHR ''0'' \<or> ?ip = ''0''"
            using ne dig hd0 pos by (simp_all add: list_all_take hd_take)
          have fs: "?fs \<noteq> []" using mid pos by simp
          have "scan_number (?sign @ ?ip @ CHR ''.'' # ?fs @ r)
                  = float_result neg (digits_val (?ip @ ?fs)) (- int (length ?fs)) r"
            by (rule scan_number_float_plain [OF ip fs list_all_drop [OF dig] r])
          also have "digits_val (?ip @ ?fs) = m" by (simp add: val)
          also have "- int (length ?fs) = e" using mid pos by auto
          finally show ?thesis unfolding shape by (simp add: res f)
        qed
      qed
    qed
  qed
qed

lemma float_repr_first:
  "\<exists>c u. float_repr f = c # u \<and> (c = CHR ''-'' \<or> is_digit c)"
proof (cases "fl_neg f")
  case True
  then show ?thesis by (simp add: float_repr_def Let_def)
next
  case False
  let ?ds = "digits (fl_man f)"
  obtain d ds where ds: "?ds = d # ds"
    using digits_nonempty [of "fl_man f"] by (cases ?ds) auto
  with digits_all_digit [of "fl_man f"] have d: "is_digit d" by simp
  let ?decpt = "int (length ?ds) + fl_exp f"
  consider (a) "?decpt \<le> - 4 \<or> 16 < ?decpt"
    | (b) "\<not> (?decpt \<le> - 4 \<or> 16 < ?decpt)" "?decpt \<le> 0"
    | (c) "\<not> (?decpt \<le> - 4 \<or> 16 < ?decpt)" "\<not> ?decpt \<le> 0" "int (length ?ds) \<le> ?decpt"
    | (d) "\<not> (?decpt \<le> - 4 \<or> 16 < ?decpt)" "\<not> ?decpt \<le> 0" "\<not> int (length ?ds) \<le> ?decpt"
    by blast
  then show ?thesis
  proof cases
    case a
    then show ?thesis using False d by (simp add: float_repr_def Let_def ds)
  next
    case b
    then show ?thesis using False by (simp add: float_repr_def Let_def is_digit_zero)
  next
    case c
    then show ?thesis using False d by (simp add: float_repr_def Let_def ds)
  next
    case d
    then obtain j where j: "nat ?decpt = Suc j" by (cases "nat ?decpt") auto
    with d show ?thesis using False \<open>is_digit d\<close>
      by (simp add: float_repr_def Let_def ds)
  qed
qed

subsection \<open>Values\<close>

lemma scan_number_show_int:
  assumes "ok_tail r"
  shows "scan_number (show_int i @ r) = Inr (JInt i, r)"
proof (cases "i < 0")
  case True
  then have "0 \<le> - i" by simp
  from scan_unsigned_digits [OF assms this] True show ?thesis
    by (simp add: scan_number_def show_int_def ok_tail_not_float [OF assms])
next
  case False
  then have nn: "0 \<le> i" by simp
  obtain c cs where ds: "digits i = c # cs"
    using digits_nonempty [of i] by (cases "digits i") auto
  from hd_digits_is_digit [of i] ds have "c \<noteq> CHR ''-''"
    by (auto simp: is_digit_def)
  then have neg: "(case digits i @ r of [] \<Rightarrow> False | c # _ \<Rightarrow> c = CHR ''-'') = False"
    by (simp add: ds)
  from False show ?thesis
    by (simp add: scan_number_def show_int_def neg scan_unsigned_digits [OF assms nn]
        ok_tail_not_float [OF assms])
qed

lemma hex_val_hex_char: "k < 16 \<Longrightarrow> hex_val (hex_char k) = Some k"
  by (simp add: hex_val_def hex_char_def Let_def)

lemma hex_val_zero: "hex_val (CHR ''0'') = Some 0"
  by (simp add: hex_val_def)

lemma hex4_of_char:
  "hex4 (CHR ''0'') (CHR ''0'') (hex_char (of_char c div 16)) (hex_char (of_char c mod 16))
     = Some (of_char c)"
proof -
  have "(of_char c :: nat) < 256" by (rule nat_of_char_less_256)
  then have "(of_char c :: nat) div 16 < 16" by arith
  then show ?thesis
    by (simp add: hex4_def hex_val_zero hex_val_hex_char)
qed

lemma scanstring_escape_char:
  "scanstring (escape_char c @ t) = cons_result c (scanstring t)"
proof -
  consider (q) "c = CHR 0x22" | (bs) "c = CHR 0x5C" | (n) "c = CHR 0x0A" | (r) "c = CHR 0x0D"
    | (t) "c = CHR 0x09" | (b) "c = CHR 0x08" | (f) "c = CHR 0x0C"
    | (plain) "c \<noteq> CHR 0x22" "c \<noteq> CHR 0x5C" "c \<noteq> CHR 0x0A" "c \<noteq> CHR 0x0D" "c \<noteq> CHR 0x09"
        "c \<noteq> CHR 0x08" "c \<noteq> CHR 0x0C" "32 \<le> (of_char c :: nat) \<and> (of_char c :: nat) \<le> 126"
    | (u) "c \<noteq> CHR 0x22" "c \<noteq> CHR 0x5C" "c \<noteq> CHR 0x0A" "c \<noteq> CHR 0x0D" "c \<noteq> CHR 0x09"
        "c \<noteq> CHR 0x08" "c \<noteq> CHR 0x0C" "\<not> (32 \<le> (of_char c :: nat) \<and> (of_char c :: nat) \<le> 126)"
    by blast
  then show ?thesis
  proof cases
    case q then show ?thesis by (simp add: escape_char_def unescape_def)
  next
    case bs then show ?thesis by (simp add: escape_char_def unescape_def)
  next
    case n then show ?thesis by (simp add: escape_char_def unescape_def)
  next
    case r then show ?thesis by (simp add: escape_char_def unescape_def)
  next
    case t then show ?thesis by (simp add: escape_char_def unescape_def)
  next
    case b then show ?thesis by (simp add: escape_char_def unescape_def)
  next
    case f then show ?thesis by (simp add: escape_char_def unescape_def)
  next
    case plain
    then show ?thesis by (simp add: escape_char_def)
  next
    case u
    then show ?thesis
      by (simp add: escape_char_def hex4_of_char)
  qed
qed

lemma scanstring_escaped:
  "scanstring (concat (map escape_char s) @ CHR 0x22 # rest) = Inr (s, rest)"
proof (induction s)
  case Nil
  show ?case by simp
next
  case (Cons c s)
  have "scanstring (concat (map escape_char (c # s)) @ CHR 0x22 # rest)
          = scanstring (escape_char c @ (concat (map escape_char s) @ CHR 0x22 # rest))"
    by simp
  also have "\<dots> = cons_result c (scanstring (concat (map escape_char s) @ CHR 0x22 # rest))"
    by (rule scanstring_escape_char)
  finally show ?case by (simp add: Cons.IH cons_result_def)
qed

lemma scanstring_encoded:
  "encode_basestring_ascii s @ rest = CHR 0x22 # u \<Longrightarrow> scanstring u = Inr (s, rest)"
  using scanstring_escaped [of s rest] by (simp add: encode_basestring_ascii_def)

lemma render_JObject:
  "render (JObject kvs) = ''{'' @ join '', '' (map member_text kvs) @ ''}''"
proof -
  have "(\<lambda>(k, v). encode_basestring_ascii k @ '': '' @ render v) = member_text"
    by (auto simp: member_text_def fun_eq_iff)
  then show ?thesis by simp
qed

lemma skip_ws_nonws: "\<not> is_ws c \<Longrightarrow> skip_ws (c # t) = c # t"
  by (simp add: skip_ws_def)

lemma skip_ws_space: "skip_ws (CHR '' '' # t) = skip_ws t"
  by (simp add: skip_ws_def is_ws_def)

lemma show_int_first:
  "\<exists>c u. show_int i = c # u \<and> (c = CHR ''-'' \<or> is_digit c)"
proof (cases "i < 0")
  case True
  then show ?thesis by (simp add: show_int_def)
next
  case False
  obtain c cs where ds: "digits i = c # cs"
    using digits_nonempty [of i] by (cases "digits i") auto
  with hd_digits_is_digit [of i] have "is_digit c" by simp
  with False ds show ?thesis by (simp add: show_int_def)
qed

lemma render_first: "\<exists>c u. render v = c # u \<and> \<not> is_ws c \<and> c \<noteq> CHR '']''"
proof (cases v)
  case (JInt i)
  from show_int_first [of i] obtain c u where
    cu: "show_int i = c # u" "c = CHR ''-'' \<or> is_digit c" by blast
  then have "\<not> is_ws c \<and> c \<noteq> CHR '']''" by (auto simp: is_ws_def is_digit_def)
  with cu JInt show ?thesis by simp
next
  case (JFloat f)
  from float_repr_first [of f] obtain c u where
    cu: "float_repr f = c # u" "c = CHR ''-'' \<or> is_digit c" by blast
  then have "\<not> is_ws c \<and> c \<noteq> CHR '']''" by (auto simp: is_ws_def is_digit_def)
  with cu JFloat show ?thesis by simp
qed (simp_all add: is_ws_def encode_basestring_ascii_def)

lemma skip_ws_render: "skip_ws (render v @ t) = render v @ t"
proof -
  from render_first [of v] obtain c u where "render v = c # u" "\<not> is_ws c" by blast
  then show ?thesis by (simp add: skip_ws_nonws)
qed

lemma parse_value_number:
  assumes "s = c # u" "c = CHR ''-'' \<or> is_digit c"
  shows "parse_value (Suc m) s = scan_number s"
proof -
  from assms(2) have "c \<noteq> CHR 0x22" "c \<noteq> CHR ''{''" "c \<noteq> CHR ''[''"
    "c \<noteq> CHR ''n''" "c \<noteq> CHR ''t''" "c \<noteq> CHR ''f''"
    by (auto simp: is_digit_def)
  then show ?thesis by (simp add: assms(1))
qed

lemma parse_value_string:
  "parse_value (Suc m) (encode_basestring_ascii s @ rest) = Inr (JStr s, rest)"
  by (simp add: encode_basestring_ascii_def scanstring_escaped)

lemma parse_elems_last:
  assumes "parse_value n s = Inr (v, r)" "skip_ws r = CHR '']'' # r1"
  shows "parse_elems (Suc n) s = Inr ([v], r1)"
  using assms by simp

lemma parse_elems_more:
  assumes "parse_value n s = Inr (v, r)" "skip_ws r = CHR '','' # r1"
    "parse_elems n (skip_ws r1) = Inr (vs, r2)"
  shows "parse_elems (Suc n) s = Inr (v # vs, r2)"
  using assms by simp

lemma parse_members_last:
  assumes "scanstring s1 = Inr (key, r)" "skip_ws r = CHR '':'' # r1"
    "parse_value n (skip_ws r1) = Inr (v, r2)" "skip_ws r2 = CHR ''}'' # r3"
  shows "parse_members (Suc n) (CHR 0x22 # s1) = Inr ([(key, v)], r3)"
  using assms by simp

lemma parse_members_more:
  assumes "scanstring s1 = Inr (key, r)" "skip_ws r = CHR '':'' # r1"
    "parse_value n (skip_ws r1) = Inr (v, r2)" "skip_ws r2 = CHR '','' # r3"
    "parse_members n (skip_ws r3) = Inr (pairs, r4)"
  shows "parse_members (Suc n) (CHR 0x22 # s1) = Inr ((key, v) # pairs, r4)"
  using assms by simp

lemma ok_tail_simps:
  "ok_tail []" "ok_tail (CHR '','' # t)" "ok_tail (CHR '']'' # t)" "ok_tail (CHR ''}'' # t)"
  by (simp_all add: ok_tail_def)

lemma skip_ws_comma: "skip_ws (CHR '','' # t) = CHR '','' # t"
  and skip_ws_colon: "skip_ws (CHR '':'' # t) = CHR '':'' # t"
  and skip_ws_rbracket: "skip_ws (CHR '']'' # t) = CHR '']'' # t"
  and skip_ws_rbrace: "skip_ws (CHR ''}'' # t) = CHR ''}'' # t"
  and skip_ws_quote: "skip_ws (CHR 0x22 # t) = CHR 0x22 # t"
  by (simp_all add: skip_ws_def is_ws_def)

lemma parse_elems_join:
  assumes IH: "\<And>x n rest. x \<in> set xs \<Longrightarrow> ok_tail rest \<Longrightarrow> length (render x) < n \<Longrightarrow>
                  parse_value n (render x @ rest) = Inr (x, rest)"
    and "xs \<noteq> []"
    and "Suc (length (join '', '' (map render xs))) < n"
  shows "parse_elems n (join '', '' (map render xs) @ CHR '']'' # rest) = Inr (xs, rest)"
  using assms
proof (induction xs arbitrary: n)
  case Nil
  then show ?case by simp
next
  case (Cons x xs)
  from Cons.prems(3) obtain m where n: "n = Suc m" by (cases n) auto
  show ?case
  proof (cases xs)
    case Nil
    with Cons.prems(3) n have len: "length (render x) < m" by simp
    have pv: "parse_value m (render x @ CHR '']'' # rest) = Inr (x, CHR '']'' # rest)"
      by (rule Cons.prems(1)) (simp_all add: ok_tail_simps len)
    have "parse_elems (Suc m) (render x @ CHR '']'' # rest) = Inr ([x], rest)"
      by (rule parse_elems_last [OF pv skip_ws_rbracket])
    with Nil n show ?thesis by simp
  next
    case (Cons y ys)
    let ?tl = "join '', '' (map render xs)"
    from Cons have jtext: "join '', '' (map render (x # xs)) = render x @ '', '' @ ?tl" by simp
    from Cons.prems(3) n jtext have len: "length (render x) < m" and len': "Suc (length ?tl) < m"
      by simp_all
    have pv: "parse_value m (render x @ (CHR '','' # CHR '' '' # ?tl @ CHR '']'' # rest))
                = Inr (x, CHR '','' # CHR '' '' # ?tl @ CHR '']'' # rest)"
      by (rule Cons.prems(1)) (simp_all add: ok_tail_simps len)
    have ne: "xs \<noteq> []" using Cons by simp
    have IH': "\<And>x n rest. x \<in> set xs \<Longrightarrow> ok_tail rest \<Longrightarrow> length (render x) < n \<Longrightarrow>
                  parse_value n (render x @ rest) = Inr (x, rest)"
      using Cons.prems(1) by simp
    have rec: "parse_elems m (?tl @ CHR '']'' # rest) = Inr (xs, rest)"
      by (rule Cons.IH [OF IH' ne len'])
    from Cons obtain c u where first: "?tl = c # u" "\<not> is_ws c"
      using render_first [of y] by (cases ys) auto
    have sk: "skip_ws (CHR '' '' # ?tl @ CHR '']'' # rest) = ?tl @ CHR '']'' # rest"
      using first by (simp add: skip_ws_space skip_ws_nonws)
    have rec': "parse_elems m (skip_ws (CHR '' '' # ?tl @ CHR '']'' # rest)) = Inr (xs, rest)"
      by (simp only: sk rec)
    have "parse_elems (Suc m) (render x @ (CHR '','' # CHR '' '' # ?tl @ CHR '']'' # rest))
            = Inr (x # xs, rest)"
      by (rule parse_elems_more [OF pv skip_ws_comma rec'])
    with n jtext show ?thesis by simp
  qed
qed

lemma member_text_shape:
  "member_text (k, v) @ t
     = CHR 0x22 # concat (map escape_char k) @ CHR 0x22 # CHR '':'' # CHR '' '' # render v @ t"
  by (simp add: member_text_def encode_basestring_ascii_def)

lemma length_member_text: "length (render v) + 4 \<le> length (member_text (k, v))"
  by (simp add: member_text_def encode_basestring_ascii_def)

lemma parse_members_join:
  assumes IH: "\<And>k v n rest. (k, v) \<in> set kvs \<Longrightarrow> ok_tail rest \<Longrightarrow> length (render v) < n \<Longrightarrow>
                  parse_value n (render v @ rest) = Inr (v, rest)"
    and "kvs \<noteq> []"
    and "length (join '', '' (map member_text kvs)) < n"
  shows "parse_members n (join '', '' (map member_text kvs) @ CHR ''}'' # rest) = Inr (kvs, rest)"
  using assms
proof (induction kvs arbitrary: n)
  case Nil
  then show ?case by simp
next
  case (Cons kv kvs)
  obtain k v where kv: "kv = (k, v)" by (cases kv)
  from Cons.prems(3) obtain m where n: "n = Suc m" by (cases n) auto
  have scan: "scanstring (concat (map escape_char k) @ CHR 0x22 # t) = Inr (k, t)" for t
    by (rule scanstring_escaped)
  have mem: "(k, v) \<in> set (kv # kvs)" by (simp add: kv)
  show ?case
  proof (cases kvs)
    case Nil
    with Cons.prems(3) n kv length_member_text [of v k] have len: "length (render v) < m"
      by simp
    have pv: "parse_value m (render v @ CHR ''}'' # rest) = Inr (v, CHR ''}'' # rest)"
      by (rule Cons.prems(1) [OF mem _ len]) (simp add: ok_tail_simps)
    have pv': "parse_value m (skip_ws (CHR '' '' # render v @ CHR ''}'' # rest))
                 = Inr (v, CHR ''}'' # rest)"
      by (simp only: skip_ws_space skip_ws_render pv)
    have "parse_members (Suc m)
            (CHR 0x22 # concat (map escape_char k) @ CHR 0x22 # CHR '':'' # CHR '' '' #
               render v @ CHR ''}'' # rest) = Inr ([(k, v)], rest)"
      by (rule parse_members_last [OF scan skip_ws_colon pv' skip_ws_rbrace])
    with Nil n kv show ?thesis by (simp add: member_text_shape)
  next
    case (Cons kv' kvs')
    let ?tl = "join '', '' (map member_text kvs)"
    from Cons have jtext: "join '', '' (map member_text (kv # kvs)) = member_text kv @ '', '' @ ?tl"
      by simp
    from Cons.prems(3) n jtext kv length_member_text [of v k]
    have len: "length (render v) < m" and len': "length ?tl < m"
      by simp_all
    have pv: "parse_value m (render v @ (CHR '','' # CHR '' '' # ?tl @ CHR ''}'' # rest))
                = Inr (v, CHR '','' # CHR '' '' # ?tl @ CHR ''}'' # rest)"
      by (rule Cons.prems(1) [OF mem _ len]) (simp add: ok_tail_simps)
    have pv': "parse_value m (skip_ws (CHR '' '' # render v @
                  (CHR '','' # CHR '' '' # ?tl @ CHR ''}'' # rest)))
                = Inr (v, CHR '','' # CHR '' '' # ?tl @ CHR ''}'' # rest)"
      by (simp only: skip_ws_space skip_ws_render pv)
    have ne: "kvs \<noteq> []" using Cons by simp
    have IH': "\<And>k v n rest. (k, v) \<in> set kvs \<Longrightarrow> ok_tail rest \<Longrightarrow> length (render v) < n \<Longrightarrow>
                  parse_value n (render v @ rest) = Inr (v, rest)"
    proof -
      fix k' v' n' rest'
      assume "(k', v') \<in> set kvs" "ok_tail rest'" "length (render v') < n'"
      then show "parse_value n' (render v' @ rest') = Inr (v', rest')"
        using Cons.prems(1) [of k' v' rest' n'] by simp
    qed
    have rec: "parse_members m (?tl @ CHR ''}'' # rest) = Inr (kvs, rest)"
      by (rule Cons.IH [OF IH' ne len'])
    obtain u where first: "?tl = CHR 0x22 # u"
      using Cons by (cases kv'; cases kvs') (auto simp: member_text_def encode_basestring_ascii_def)
    have sk: "skip_ws (CHR '' '' # ?tl @ CHR ''}'' # rest) = ?tl @ CHR ''}'' # rest"
      using first by (simp add: skip_ws_space skip_ws_quote)
    have rec': "parse_members m (skip_ws (CHR '' '' # ?tl @ CHR ''}'' # rest)) = Inr (kvs, rest)"
      by (simp only: sk rec)
    have "parse_members (Suc m)
            (CHR 0x22 # concat (map escape_char k) @ CHR 0x22 # CHR '':'' # CHR '' '' #
               render v @ (CHR '','' # CHR '' '' # ?tl @ CHR ''}'' # rest))
            = Inr ((k, v) # kvs, rest)"
      by (rule parse_members_more [OF scan skip_ws_colon pv' skip_ws_comma rec'])
    with n jtext kv show ?thesis by (simp add: member_text_shape)
  qed
qed

lemma parse_value_array:
  assumes "skip_ws cs = c1 # r1" "c1 \<noteq> CHR '']''" "parse_elems n (c1 # r1) = Inr (vs, r)"
  shows "parse_value (Suc n) (CHR ''['' # cs) = Inr (JArray vs, r)"
  using assms by simp

lemma parse_value_object:
  assumes "skip_ws cs = CHR 0x22 # r1" "parse_members n (CHR 0x22 # r1) = Inr (pairs, r)"
  shows "parse_value (Suc n) (CHR ''{'' # cs) = Inr (JObject (dict_of_items pairs), r)"
  using assms by simp

lemma parse_value_render:
  "wf_json v \<Longrightarrow> ok_tail rest \<Longrightarrow> length (render v) < n \<Longrightarrow>
   parse_value n (render v @ rest) = Inr (v, rest)"
proof (induction v arbitrary: n rest)
  case JNull
  then obtain m where "n = Suc m" by (cases n) auto
  then show ?case by simp
next
  case (JBool b)
  then obtain m where "n = Suc m" by (cases n) auto
  then show ?case by simp
next
  case (JInt i)
  then obtain m where n: "n = Suc m" by (cases n) auto
  from show_int_first [of i] obtain c u where
    cu: "show_int i = c # u" "c = CHR ''-'' \<or> is_digit c" by blast
  have "parse_value (Suc m) (show_int i @ rest) = scan_number (show_int i @ rest)"
    by (rule parse_value_number [of _ c "u @ rest"]) (simp_all add: cu)
  with JInt.prems n show ?case by (simp add: scan_number_show_int)
next
  case (JFloat f)
  then obtain m where n: "n = Suc m" by (cases n) auto
  from float_repr_first [of f] obtain c u where
    cu: "float_repr f = c # u" "c = CHR ''-'' \<or> is_digit c" by blast
  have "parse_value (Suc m) (float_repr f @ rest) = scan_number (float_repr f @ rest)"
    by (rule parse_value_number [of _ c "u @ rest"]) (simp_all add: cu)
  with JFloat.prems n show ?case by (simp add: scan_number_float_repr)
next
  case (JStr s)
  then obtain m where "n = Suc m" by (cases n) auto
  then show ?case by (simp only: render.simps parse_value_string)
next
  case (JArray xs)
  then obtain m where n: "n = Suc m" by (cases n) auto
  show ?case
  proof (cases xs)
    case Nil
    with n show ?thesis by (simp add: skip_ws_nonws is_ws_def)
  next
    case (Cons y ys)
    let ?el = "join '', '' (map render xs)"
    have IH: "\<And>x n rest. x \<in> set xs \<Longrightarrow> ok_tail rest \<Longrightarrow> length (render x) < n \<Longrightarrow>
                  parse_value n (render x @ rest) = Inr (x, rest)"
      using JArray.IH JArray.prems(1) by (auto simp: list_all_iff)
    from JArray.prems(3) n have len: "Suc (length ?el) < m" by simp
    have el: "parse_elems m (?el @ CHR '']'' # rest) = Inr (xs, rest)"
      by (rule parse_elems_join [OF IH _ len]) (simp_all add: Cons)
    from Cons obtain c u where first: "?el = c # u" "\<not> is_ws c" "c \<noteq> CHR '']''"
      using render_first [of y] by (cases ys) auto
    have sk: "skip_ws (?el @ CHR '']'' # rest) = c # (u @ CHR '']'' # rest)"
      using first by (simp add: skip_ws_nonws)
    have el': "parse_elems m (c # (u @ CHR '']'' # rest)) = Inr (xs, rest)"
      using el first by simp
    have "parse_value (Suc m) (CHR ''['' # ?el @ CHR '']'' # rest) = Inr (JArray xs, rest)"
      by (rule parse_value_array [OF sk first(3) el'])
    with n show ?thesis by simp
  qed
next
  case (JObject kvs)
  then obtain m where n: "n = Suc m" by (cases n) auto
  show ?case
  proof (cases kvs)
    case Nil
    with n show ?thesis by (simp add: skip_ws_nonws is_ws_def)
  next
    case (Cons kv' kvs')
    let ?el = "join '', '' (map member_text kvs)"
    have IH: "\<And>k v n rest. (k, v) \<in> set kvs \<Longrightarrow> ok_tail rest \<Longrightarrow> length (render v) < n \<Longrightarrow>
                  parse_value n (render v @ rest) = Inr (v, rest)"
    proof -
      fix k v n rest
      assume kv: "(k, v) \<in> set kvs" and r: "ok_tail rest" and l: "length (render v) < n"
      from kv JObject.prems(1) have "wf_json v" by (auto simp: list_all_iff)
      with JObject.IH [of "(k, v)" v] kv r l
      show "parse_value n (render v @ rest) = Inr (v, rest)" by simp
    qed
    from JObject.prems(3) n have len: "length ?el < m"
      by (simp only: render_JObject) simp
    have el: "parse_members m (?el @ CHR ''}'' # rest) = Inr (kvs, rest)"
      by (rule parse_members_join [OF IH _ len]) (simp_all add: Cons)
    obtain u where first: "?el = CHR 0x22 # u"
      using Cons by (cases kv'; cases kvs') (auto simp: member_text_def encode_basestring_ascii_def)
    have sk: "skip_ws (?el @ CHR ''}'' # rest) = CHR 0x22 # (u @ CHR ''}'' # rest)"
      using first by (simp add: skip_ws_quote)
    have el': "parse_members m (CHR 0x22 # (u @ CHR ''}'' # rest)) = Inr (kvs, rest)"
      using el first by simp
    have "parse_value (Suc m) (CHR ''{'' # ?el @ CHR ''}'' # rest)
            = Inr (JObject (dict_of_items kvs), rest)"
      by (rule parse_value_object [OF sk el'])
    with n JObject.prems(1) show ?thesis
      by (simp only: render_JObject) (simp add: dict_of_items_distinct)
  qed
qed

lemma parse_render: "wf_json v \<Longrightarrow> parse (render v) = Inr v"
proof -
  assume wf: "wf_json v"
  have pv: "parse_value (Suc (2 * length (render v))) (render v) = Inr (v, [])"
    using parse_value_render [OF wf, of "[]" "Suc (2 * length (render v))"]
    by (simp add: ok_tail_simps)
  have sk: "skip_ws (render v) = render v"
    using skip_ws_render [of v "[]"] by simp
  show ?thesis
    unfolding parse_def sk pv by (simp add: skip_ws_def)
qed

lemma to_json_PState: "to_json (PState s) = to_json (PDict (as_dict s))"
  by (cases s)
     (simp add: as_dict_def Context_as_dict_def Context_to_json_def opt_str_def opt_json_def
        split: option.split)

section \<open>Encoding and decoding Python values\<close>

lemma map_fst_map_snd: "map fst (map (\<lambda>(k, v). (k, f v)) kvs) = map fst kvs"
  by (induction kvs) auto

lemma fst_comp_items: "fst \<circ> (\<lambda>(k, v). (k, f v)) = fst"
  by (auto simp: fun_eq_iff)

lemma wf_json_Context: "wf_json (Context_to_json c)"
  by (simp add: Context_to_json_def opt_json_def split: option.split)

lemma list_all_items_map:
  assumes "\<And>k v. (k, v) \<in> set kvs \<Longrightarrow> P v \<Longrightarrow> Q (f v)"
    and "list_all (\<lambda>(k, v). P v) kvs"
  shows "list_all (\<lambda>(k, v). Q v) (map (\<lambda>(k, v). (k, f v)) kvs)"
  using assms by (induction kvs) auto


lemma wf_json_to_json: "wf_pyval v \<Longrightarrow> wf_json (to_json v)"
proof (induction v)
  case (PList xs)
  then show ?case by (auto simp: list_all_iff)
next
  case (PDict kvs)
  have "list_all (\<lambda>(k, v). wf_json v) (map (\<lambda>(k, v). (k, to_json v)) kvs)"
  proof (rule list_all_items_map [where P = wf_pyval])
    fix k v assume "(k, v) \<in> set kvs" "wf_pyval v"
    with PDict.IH [of "(k, v)" v] show "wf_json (to_json v)" by simp
  next
    from PDict.prems show "list_all (\<lambda>(k, v). wf_pyval v) kvs" by simp
  qed
  with PDict.prems show ?case by (simp add: fst_comp_items)
next
  case (PState s)
  obtain e st attrs lc lu c where s: "s = StateObj e st attrs lc lu c" by (cases s)
  have "list_all (\<lambda>(k, v). wf_json v) (map (\<lambda>(k, v). (k, to_json v)) attrs)"
  proof (rule list_all_items_map [where P = wf_pyval])
    fix k v assume kv: "(k, v) \<in> set attrs" "wf_pyval v"
    then have "v \<in> set_state_obj s" by (force simp: s)
    with PState.IH [of v] kv show "wf_json (to_json v)" by simp
  next
    from PState.prems show "list_all (\<lambda>(k, v). wf_pyval v) attrs" by (simp add: s)
  qed
  with PState.prems show ?case by (simp add: s fst_comp_items wf_json_Context)
qed simp_all





lemma json_loads_dumps: "wf_pyval v \<Longrightarrow> json_loads (json_dumps v) = Inr (decoded v)"
  by (simp add: json_loads_def json_dumps_def decoded_def parse_render wf_json_to_json)

lemma json_native_filter_attributes:
  assumes "json_native (PDict a)"
  shows "json_native (PDict (filter_attributes a))"
proof -
  from assms have wf: "wf_dict a" by (simp add: wf_dict_def)
  from assms show ?thesis
    by (simp add: filter_attributes_wf [OF wf] distinct_filter_keys list_all_iff)
qed

lemma index0_split_entity_id:
  "index0 (split_entity_id e) = Inr (takeWhile (\<lambda>c. c \<noteq> CHR ''.'') e)"
proof (cases "dropWhile (\<lambda>c. c \<noteq> CHR ''.'') e")
  case Nil
  have "takeWhile (\<lambda>c. c \<noteq> CHR ''.'') e @ dropWhile (\<lambda>c. c \<noteq> CHR ''.'') e = e"
    by (rule takeWhile_dropWhile_id)
  with Nil have tw: "takeWhile (\<lambda>c. c \<noteq> CHR ''.'') e = e" by simp
  have "split_entity_id e = [e]"
    unfolding split_entity_id_def Nil by simp
  then show ?thesis by (simp add: index0_def tw)
next
  case (Cons a list)
  have "split_entity_id e = [takeWhile (\<lambda>c. c \<noteq> CHR ''.'') e, list]"
    unfolding split_entity_id_def Cons by simp
  then show ?thesis by (simp add: index0_def)
qed

lemma takeWhile_prefix:
  "CHR ''.'' \<notin> set d \<Longrightarrow> takeWhile (\<lambda>c. c \<noteq> CHR ''.'') (d @ CHR ''.'' # rest) = d"
  by (induction d) auto

lemma json_loads_empty_object: "json_loads ''{}'' = Inr (PDict [])"
  by (simp add: json_loads_def parse_def skip_ws_def is_ws_def eval_nat_numeral)

lemma json_loads_invalid: "json_loads ''{invalid'' = Inl ValueError"
  by (simp add: json_loads_def parse_def skip_ws_def is_ws_def eval_nat_numeral)

lemma json_loads_unclosed: "json_loads ''[[['' = Inl ValueError"
  by (simp add: json_loads_def parse_def skip_ws_def is_ws_def eval_nat_numeral)

lemma json_loads_float: "json_loads ''[21.5, -1e-05, 100.0]''
    = Inr (PList [PFloat (PyFloat False 215 (- 1)), PFloat (PyFloat True 1 (- 5)),
                  PFloat (PyFloat False 1 2)])"
  by code_simp

lemma EventOrigin_of_value_invalid:
  "v \<noteq> ''LOCAL'' \<Longrightarrow> v \<noteq> ''REMOTE'' \<Longrightarrow> EventOrigin_of_value v = Inl ValueError"
  by (simp add: EventOrigin_of_value_def)

section \<open>Properties of the codecs\<close>





lemma filter_state_eq:
  "filter_state key d =
     Inr (case dict_get d key of
            Some (PState s) \<Rightarrow> dict_set d key (filtered_state_dict s)
          | _ \<Rightarrow> d)"
  by (simp add: filter_state_def as_dict_def dict_get_def filtered_state_dict_def
      split: option.split pyval.split)

lemma map_no_key:
  "key \<notin> fst ` set d \<Longrightarrow> map (\<lambda>(k, v). (k, if k = key then f v else v)) d = d"
  by (induction d) auto

lemma filter_state_map:
  assumes "distinct (map fst d)"
  shows "(case dict_get d key of
            Some (PState s) \<Rightarrow> dict_set d key (filtered_state_dict s)
          | _ \<Rightarrow> d)
         = map (\<lambda>(k, v). (k, if k = key
                              then (case v of PState s \<Rightarrow> filtered_state_dict s | _ \<Rightarrow> v)
                              else v)) d"
  using assms
proof (induction d)
  case Nil
  then show ?case by (simp add: dict_get_def)
next
  case (Cons kv d)
  obtain k v where kv: "kv = (k, v)" by (cases kv)
  show ?case
  proof (cases "k = key")
    case True
    with Cons.prems kv have "key \<notin> fst ` set d" by auto
    from map_no_key [OF this] True kv show ?thesis
      by (simp add: dict_get_def split: pyval.split)
  next
    case False
    from Cons.prems have "distinct (map fst d)" by simp
    from Cons.IH [OF this] False kv show ?thesis
      by (simp add: dict_get_def split: option.splits pyval.splits)
  qed
qed

lemma spec_payload_two_steps:
  "map (\<lambda>(k, v). (k, if k = ''new_state''
                       then (case v of PState s \<Rightarrow> filtered_state_dict s | _ \<Rightarrow> v) else v))
     (map (\<lambda>(k, v). (k, if k = ''old_state''
                       then (case v of PState s \<Rightarrow> filtered_state_dict s | _ \<Rightarrow> v) else v)) d)
   = spec_payload d"
  by (induction d) (auto simp: spec_payload_def spec_payload_value_def)

lemma map_fst_items: "map fst (map (\<lambda>(k, v). (k, f k v)) d) = map fst d"
  by (induction d) auto

lemma filter_state_change_event_data_dict:
  assumes "distinct (map fst d)"
  shows "filter_state_change_event_data (PDict d) = Inr (PDict (spec_payload d))"
proof -
  let ?g = "\<lambda>key. \<lambda>(k, v). (k, if k = key
                              then (case v of PState s \<Rightarrow> filtered_state_dict s | _ \<Rightarrow> v)
                              else v)"
  have s1: "filter_state ''old_state'' d = Inr (map (?g ''old_state'') d)"
    by (simp only: filter_state_eq filter_state_map [OF assms])
  have "distinct (map fst (map (?g ''old_state'') d))"
    using assms by (simp add: comp_def case_prod_unfold)
  then have s2: "filter_state ''new_state'' (map (?g ''old_state'') d)
                   = Inr (map (?g ''new_state'') (map (?g ''old_state'') d))"
    by (simp only: filter_state_eq filter_state_map)
  show ?thesis
    unfolding filter_state_change_event_data_def
    by (simp only: pyval.case s1 s2 sum.case spec_payload_two_steps)
qed

lemma dict_get_map_items:
  "dict_get (map (\<lambda>(k, v). (k, f k v)) d) k = map_option (f k) (dict_get d k)"
  by (induction d) (auto simp: dict_get_def)

lemma decoded_PDict: "decoded (PDict kvs) = PDict (map (\<lambda>(k, v). (k, decoded v)) kvs)"
  by (simp add: decoded_def comp_def case_prod_unfold)


lemma list_all_filter_attributes:
  assumes "distinct (map fst a)" "list_all (\<lambda>(k, v). P v) a"
  shows "list_all (\<lambda>(k, v). P v) (filter_attributes a)"
proof -
  from assms(1) have wf: "wf_dict a" by (simp add: wf_dict_def)
  from assms(2) show ?thesis
    by (simp add: filter_attributes_wf [OF wf] list_all_iff)
qed

lemma wf_pyval_Context:
  "distinct (map fst (Context_as_dict c)) \<and> list_all (\<lambda>(k, v). wf_pyval v) (Context_as_dict c)"
  by (simp add: Context_as_dict_def opt_str_def split: option.split)

lemma fst_comp_keyed_items: "fst \<circ> (\<lambda>(k, v). (k, f k v)) = fst"
  by (auto simp: fun_eq_iff)

lemma filtered_state_dict_eq:
  "filtered_state_dict (StateObj e st a lc lu c) =
     PDict [(''entity_id'', PStr e), (''state'', PStr st),
            (''attributes'', PDict (filter_attributes a)),
            (''last_changed'', PDatetime lc), (''last_updated'', PDatetime lu),
            (''context'', PDict (Context_as_dict c))]"
  by (simp add: filtered_state_dict_def as_dict_def)

lemma wf_filtered_state_dict:
  assumes "wf_pyval (PState s)"
  shows "wf_pyval (filtered_state_dict s)"
proof -
  obtain e st a lc lu c where s: "s = StateObj e st a lc lu c" by (cases s)
  from assms s have d: "distinct (map fst a)" and w: "list_all (\<lambda>(k, v). wf_pyval v) a"
    by simp_all
  from d have "wf_dict a" by (simp add: wf_dict_def)
  then have "distinct (map fst (filter_attributes a))"
    using wf_filter_attributes [of a] by (simp add: wf_dict_def)
  with list_all_filter_attributes [OF d w] show ?thesis
    by (simp add: s filtered_state_dict_eq wf_pyval_Context)
qed

lemma wf_spec_payload_value: "wf_pyval v \<Longrightarrow> wf_pyval (spec_payload_value k v)"
  by (cases v) (auto simp: spec_payload_value_def wf_filtered_state_dict simp del: wf_pyval.simps)

lemma wf_spec_payload:
  assumes "wf_pyval (PDict d)"
  shows "wf_pyval (PDict (spec_payload d))"
proof -
  from assms have d: "distinct (map fst d)" and w: "list_all (\<lambda>(k, v). wf_pyval v) d"
    by simp_all
  have "list_all (\<lambda>(k, v). wf_pyval v) (spec_payload d)"
    using w by (induction d) (auto simp: spec_payload_def wf_spec_payload_value)
  moreover have "distinct (map fst (spec_payload d))"
    using d by (simp add: spec_payload_def fst_comp_keyed_items)
  ultimately show ?thesis by simp
qed

lemma decoded_filtered_state_dict:
  "\<exists>sd. decoded (filtered_state_dict s) = PDict sd
        \<and> dict_get sd ''attributes''
            = Some (PDict (map (\<lambda>(k, v). (k, decoded v)) (filter_attributes (st_attributes s))))"
proof -
  obtain e st a lc lu c where s: "s = StateObj e st a lc lu c" by (cases s)
  show ?thesis
    by (simp add: s filtered_state_dict_eq decoded_PDict dict_get_def)
qed

lemma denied_keys_absent:
  assumes "wf_dict a" "key \<in> set KEYS_TO_FILTER_FROM_DB"
  shows "dict_get (map (\<lambda>(k, v). (k, f v)) (filter_attributes a)) key = None"
proof -
  have "dict_get (map (\<lambda>(k, v). (k, (\<lambda>k. f) k v)) (filter_attributes a)) key
          = map_option f (dict_get (filter_attributes a) key)"
    by (rule dict_get_map_items)
  with dict_get_filter_attributes [OF assms(1), of key] assms(2) show ?thesis by simp
qed

section \<open>Properties of the store\<close>

lemma extends_refl: "extends h h"
  by (simp add: extends_def)

lemma extends_append: "extends h (h @ ext)"
  by (simp add: extends_def)

lemma extends_trans: "extends h h1 \<Longrightarrow> extends h1 h2 \<Longrightarrow> extends h h2"
proof -
  assume a: "extends h h1" and b: "extends h1 h2"
  from a b have len: "length h \<le> length h2" by (simp add: extends_def)
  from a have "take (length h) h1 = h" by (simp add: extends_def)
  moreover from b have "take (length h1) h2 = h1" by (simp add: extends_def)
  ultimately have "take (length h) (take (length h1) h2) = h" by simp
  moreover from a have "min (length h) (length h1) = length h" by (simp add: extends_def)
  ultimately have "take (length h) h2 = h" by (simp add: take_take)
  with len show ?thesis by (simp add: extends_def)
qed

lemma extends_nth: "extends h h' \<Longrightarrow> a < length h \<Longrightarrow> h' ! a = h ! a"
proof -
  assume e: "extends h h'" and a: "a < length h"
  from e have "take (length h) h' = h" by (simp add: extends_def)
  then have "take (length h) h' ! a = h ! a" by simp
  with a show ?thesis by simp
qed

lemma extendsI:
  assumes "length h \<le> length h'" "\<And>a. a < length h \<Longrightarrow> h' ! a = h ! a"
  shows "extends h h'"
proof -
  have "take (length h) h' = h"
    using assms by (intro nth_equalityI) simp_all
  with assms(1) show ?thesis by (simp add: extends_def)
qed

lemma extends_lookup: "extends h h' \<Longrightarrow> lookup h a = Some obj \<Longrightarrow> lookup h' a = Some obj"
  by (auto simp: lookup_def extends_nth extends_def split: if_splits)

lemma extends_update_fresh:
  "extends h h' \<Longrightarrow> length h \<le> a \<Longrightarrow> extends h (store_set h' a obj)"
  by (rule extendsI) (auto simp: store_set_def extends_def extends_nth)

lemma alloc_eq: "alloc h obj = (h @ [obj], length h)"
  by (simp add: alloc_def)

lemma filter_attributes_h_extends:
  "filter_attributes_h h a = (h', r) \<Longrightarrow> extends h h'"
  by (auto simp: filter_attributes_h_def alloc_eq extends_append extends_refl
      split: option.splits hobj.splits)

lemma as_dict_h_result:
  assumes "as_dict_h h sa = (h', r)"
  shows "extends h h' \<and> (\<forall>sd. r = Inr sd \<longrightarrow> length h \<le> sd \<and> sd < length h')"
  using assms
  by (auto simp: as_dict_h_def alloc_eq extends_refl extends_def
      split: option.splits hobj.splits)

lemma filter_state_h_frame:
  assumes "filter_state_h key h fd = (h', r)"
  shows "length h \<le> length h' \<and> (\<forall>a < length h. a \<noteq> fd \<longrightarrow> h' ! a = h ! a)"
proof (cases "lookup h fd")
  case None
  with assms show ?thesis by (simp add: filter_state_h_def)
next
  case (Some obj)
  show ?thesis
  proof (cases obj)
    case (HDict kvs)
    show ?thesis
    proof (cases "\<exists>sa. dict_get kvs key = Some (Ref sa) \<and> is_State_h h (Ref sa)")
      case False
      with assms Some HDict have "h' = h"
        by (auto simp: filter_state_h_def split: option.splits hval.splits if_splits)
      then show ?thesis by simp
    next
      case True
      then obtain sa where sa: "dict_get kvs key = Some (Ref sa)" "is_State_h h (Ref sa)"
        by blast
      obtain h1 r1 where ad: "as_dict_h h sa = (h1, r1)" by (cases "as_dict_h h sa")
      from as_dict_h_result [OF ad] have e1: "extends h h1"
        and fresh: "\<forall>sd. r1 = Inr sd \<longrightarrow> length h \<le> sd \<and> sd < length h1" by blast+
      show ?thesis
      proof (cases r1)
        case (Inl e)
        with assms Some HDict sa ad have "h' = h1" by (simp add: filter_state_h_def)
        with e1 show ?thesis by (simp add: extends_def extends_nth)
      next
        case (Inr sd)
        with fresh have sd: "length h \<le> sd" by simp
        let ?h2 = "store_set h1 fd (HDict (dict_set kvs key (Ref sd)))"
        have h2: "length h \<le> length ?h2 \<and> (\<forall>a < length h. a \<noteq> fd \<longrightarrow> ?h2 ! a = h ! a)"
          using e1 by (auto simp: store_set_def extends_def extends_nth)
        have step: "length h \<le> length h' \<and> (\<forall>a < length h. a \<noteq> fd \<longrightarrow> h' ! a = ?h2 ! a)"
        proof (cases "\<exists>skvs aa. lookup ?h2 sd = Some (HDict skvs)
                                  \<and> dict_get skvs ''attributes'' = Some (Ref aa)")
          case False
          with assms Some HDict sa ad Inr have "h' = ?h2"
            by (auto simp: filter_state_h_def Let_def
                split: option.splits hobj.splits hval.splits)
          with h2 show ?thesis by simp
        next
          case True
          then obtain skvs aa where sk: "lookup ?h2 sd = Some (HDict skvs)"
            "dict_get skvs ''attributes'' = Some (Ref aa)" by blast
          obtain h3 r3 where fa: "filter_attributes_h ?h2 aa = (h3, r3)"
            by (cases "filter_attributes_h ?h2 aa")
          from filter_attributes_h_extends [OF fa] have e3: "extends ?h2 h3" .
          show ?thesis
          proof (cases r3)
            case (Inl e)
            with assms Some HDict sa ad Inr sk fa have "h' = h3"
              by (simp add: filter_state_h_def Let_def)
            with e3 h2 show ?thesis by (auto simp: extends_def extends_nth)
          next
            case (Inr fa')
            with assms Some HDict sa ad \<open>r1 = Inr sd\<close> sk fa
            have "h' = store_set h3 sd (HDict (dict_set skvs ''attributes'' (Ref fa')))"
              by (simp add: filter_state_h_def Let_def)
            then have h': "h' = h3[sd := HDict (dict_set skvs ''attributes'' (Ref fa'))]"
              by (simp add: store_set_def)
            from e3 h2 have len: "length h \<le> length h3" by (simp add: extends_def)
            have "h' ! b = ?h2 ! b" if b: "b < length h" for b
            proof -
              from b h2 have "b < length ?h2" by simp
              from extends_nth [OF e3 this] have "h3 ! b = ?h2 ! b" .
              moreover from b sd have "b \<noteq> sd" by simp
              ultimately show ?thesis using h' by simp
            qed
            with len h' show ?thesis by simp
          qed
        qed
        with h2 show ?thesis by auto
      qed
    qed
  next
    case (HList xs)
    with assms Some show ?thesis by (simp add: filter_state_h_def)
  next
    case (HState e st aa lc lu c)
    with assms Some show ?thesis by (simp add: filter_state_h_def)
  qed
qed

lemma filter_state_change_event_data_h_extends:
  assumes "filter_state_change_event_data_h h v = (h', r)"
  shows "extends h h'"
proof (cases "\<exists>a kvs. v = Ref a \<and> lookup h a = Some (HDict kvs)")
  case False
  with assms show ?thesis
    by (auto simp: filter_state_change_event_data_h_def alloc_eq extends_refl extends_append
        split: hval.splits option.splits hobj.splits if_splits)
next
  case True
  then obtain a kvs where v: "v = Ref a" "lookup h a = Some (HDict kvs)" by blast
  let ?h1 = "h @ [HDict kvs]"
  let ?fd = "length h"
  obtain h2 r2 where s1: "filter_state_h ''old_state'' ?h1 ?fd = (h2, r2)"
    by (cases "filter_state_h ''old_state'' ?h1 ?fd")
  obtain h3 r3 where s2: "filter_state_h ''new_state'' h2 ?fd = (h3, r3)"
    by (cases "filter_state_h ''new_state'' h2 ?fd")
  from filter_state_h_frame [OF s1]
  have f1: "length ?h1 \<le> length h2" "\<forall>a < length ?h1. a \<noteq> ?fd \<longrightarrow> h2 ! a = ?h1 ! a"
    by blast+
  from filter_state_h_frame [OF s2]
  have f2: "length h2 \<le> length h3" "\<forall>a < length h2. a \<noteq> ?fd \<longrightarrow> h3 ! a = h2 ! a"
    by blast+
  have e2: "extends h h2"
  proof (rule extendsI)
    from f1(1) show "length h \<le> length h2" by simp
    fix b assume "b < length h"
    with f1(2) show "h2 ! b = h ! b" by (simp add: nth_append)
  qed
  have e3: "extends h h3"
  proof (rule extendsI)
    from f1(1) f2(1) show "length h \<le> length h3" by simp
    fix b assume b: "b < length h"
    with f1(1) f2(2) have "h3 ! b = h2 ! b" by simp
    with extends_nth [OF e2 b] show "h3 ! b = h ! b" by simp
  qed
  from assms v s1 s2 have "h' = h2 \<or> h' = h3"
    by (auto simp: filter_state_change_event_data_h_def alloc_eq split: sum.splits)
  with e2 e3 show ?thesis by blast
qed

lemma Events_from_event_h_extends:
  assumes "Events_from_event_h h event = (h', r)"
  shows "extends h h'"
proof (cases "ev_event_type event = EVENT_STATE_CHANGED")
  case True
  obtain h1 r1 where f: "filter_state_change_event_data_h h (ev_data event) = (h1, r1)"
    by (cases "filter_state_change_event_data_h h (ev_data event)")
  with assms True have "h' = h1"
    by (auto simp: Events_from_event_h_def split: sum.splits option.splits)
  with filter_state_change_event_data_h_extends [OF f] show ?thesis by simp
next
  case False
  with assms have "h' = h"
    by (auto simp: Events_from_event_h_def split: option.splits)
  then show ?thesis by (simp add: extends_refl)
qed

lemma those_map_mono:
  "those (map f xs) = Some ys \<Longrightarrow> (\<And>x y. x \<in> set xs \<Longrightarrow> f x = Some y \<Longrightarrow> g x = Some y)
     \<Longrightarrow> those (map g xs) = Some ys"
proof (induction xs arbitrary: ys)
  case Nil
  then show ?case by simp
next
  case (Cons x xs)
  from Cons.prems(1) obtain y ys' where y: "f x = Some y" and ys': "those (map f xs) = Some ys'"
    and ys: "ys = y # ys'"
    by (auto split: option.splits)
  from Cons.prems(2) y have "g x = Some y" by simp
  moreover from Cons.IH [OF ys'] Cons.prems(2) have "those (map g xs) = Some ys'" by simp
  ultimately show ?case using ys by simp
qed

lemma read_extends:
  "extends h h' \<Longrightarrow> read n h v = Some x \<Longrightarrow> read n h' v = Some x"
proof (induction n arbitrary: v x)
  case 0
  then show ?case by (cases v) simp_all
next
  case (Suc n)
  show ?case
  proof (cases v)
    case (Ref a)
    with Suc.prems(2) obtain obj where obj: "lookup h a = Some obj"
      by (auto split: option.splits)
    from extends_lookup [OF Suc.prems(1) obj] have obj': "lookup h' a = Some obj" .
    show ?thesis
    proof (cases obj)
      case (HDict kvs)
      with Suc.prems(2) Ref obj obtain ys where
        ys: "those (map (\<lambda>(k, v). map_option (Pair k) (read n h v)) kvs) = Some ys"
        and x: "x = PDict ys"
        by auto
      have "those (map (\<lambda>(k, v). map_option (Pair k) (read n h' v)) kvs) = Some ys"
      proof (rule those_map_mono [OF ys])
        fix p y
        assume "(case p of (k, v) \<Rightarrow> map_option (Pair k) (read n h v)) = Some y"
        then obtain k w z where p: "p = (k, w)" and z: "read n h w = Some z" and y: "y = (k, z)"
          by (cases p) auto
        from Suc.IH [OF Suc.prems(1) z] have "read n h' w = Some z" .
        with p y show "(case p of (k, v) \<Rightarrow> map_option (Pair k) (read n h' v)) = Some y"
          by simp
      qed
      with Ref obj' HDict x show ?thesis by simp
    next
      case (HList xs)
      with Suc.prems(2) Ref obj obtain ys where
        ys: "those (map (read n h) xs) = Some ys" and x: "x = PList ys"
        by auto
      have "those (map (read n h') xs) = Some ys"
        by (rule those_map_mono [OF ys]) (rule Suc.IH [OF Suc.prems(1)])
      with Ref obj' HList x show ?thesis by simp
    next
      case (HState e st aa lc lu c)
      with Suc.prems(2) Ref obj obtain attrs where
        a: "read n h (Ref aa) = Some (PDict attrs)"
        and x: "x = PState (StateObj e st attrs lc lu c)"
        by (auto split: option.splits pyval.splits)
      from Suc.IH [OF Suc.prems(1) a] have "read n h' (Ref aa) = Some (PDict attrs)" .
      with Ref obj' HState x show ?thesis by simp
    qed
  qed (use Suc.prems(2) in simp_all)
qed

section \<open>Claims\<close>


text \<open>
  C7. The claim that an aware timestamp in any offset is converted to UTC does not hold
  at the edge of the range of datetimes. \<open>0001-01-01T00:30:00+01:00\<close> is a datetime, but
  its UTC reading would lie in the year before the first one, and the conversion raises
  \<open>OverflowError\<close>.
\<close>

theorem C7_process_timestamp_counterexample:
  "in_range (wall \<lparr>wall = 1800000000, tzinfo = Some (FixedOffset 3600000000)\<rparr>)
   \<and> process_timestamp (Some \<lparr>wall = 1800000000, tzinfo = Some (FixedOffset 3600000000)\<rparr>)
       = Inl OverflowError"
  by (simp add: process_timestamp_def as_utc_def in_range_def MAX_WALL_def)

text \<open>
  C7, as the code has it. The timestamp normaliser: \<open>None\<close> goes to \<open>None\<close>; a naive
  timestamp is tagged as UTC with its clock reading unchanged; an aware timestamp in any
  zone, whose UTC reading is that of a datetime, is converted to UTC, and one whose UTC
  reading is not raises \<open>OverflowError\<close>; every result other than \<open>None\<close> is aware, is in
  UTC, denotes the instant of the input, and is a fixed point of the normaliser.
\<close>

theorem C7_process_timestamp:
  "process_timestamp None = Inr None
   \<and> (tzinfo T = None \<longrightarrow>
        process_timestamp (Some T) = Inr (Some (T\<lparr>tzinfo := Some UTC\<rparr>))
        \<and> wall (T\<lparr>tzinfo := Some UTC\<rparr>) = wall T)
   \<and> (tzinfo T = Some z \<and> in_range (wall T - utcoffset z) \<longrightarrow>
        process_timestamp (Some T)
          = Inr (Some (T\<lparr>wall := wall T - utcoffset z, tzinfo := Some UTC\<rparr>)))
   \<and> (tzinfo T = Some z \<and> z \<noteq> UTC \<and> \<not> in_range (wall T - utcoffset z) \<longrightarrow>
        process_timestamp (Some T) = Inl OverflowError)
   \<and> (\<forall>r. process_timestamp (Some T) = Inr r \<longrightarrow>
          (\<exists>T'. r = Some T' \<and> aware T' \<and> tzinfo T' = Some UTC \<and> instant T' = instant T)
          \<and> process_timestamp r = Inr r)"
proof (cases "tzinfo T")
  case None
  then show ?thesis
    by (auto simp: process_timestamp_def UTC_localize_def as_utc_def instant_def aware_def)
next
  case (Some z')
  show ?thesis
  proof (cases z')
    case UTC
    with Some show ?thesis
      by (auto simp: process_timestamp_def as_utc_def instant_def aware_def)
  next
    case (FixedOffset d)
    with Some show ?thesis
      by (auto simp: process_timestamp_def as_utc_def instant_def aware_def Let_def)
  qed
qed

theorem C7_process_timestamp_witness:
  "process_timestamp (Some \<lparr>wall = 7200000000, tzinfo = None\<rparr>)
     = Inr (Some \<lparr>wall = 7200000000, tzinfo = Some UTC\<rparr>)
   \<and> process_timestamp (Some \<lparr>wall = 7200000000, tzinfo = Some (FixedOffset 3600000000)\<rparr>)
     = Inr (Some \<lparr>wall = 3600000000, tzinfo = Some UTC\<rparr>)
   \<and> process_timestamp (Some \<lparr>wall = 3600000000, tzinfo = Some UTC\<rparr>)
     = Inr (Some \<lparr>wall = 3600000000, tzinfo = Some UTC\<rparr>)"
proof -
  let ?N = "\<lparr>wall = 7200000000, tzinfo = None\<rparr>"
  let ?A = "\<lparr>wall = 7200000000, tzinfo = Some (FixedOffset 3600000000)\<rparr>"
  have r: "in_range (wall ?A - utcoffset (FixedOffset 3600000000))"
    by (simp add: in_range_def MAX_WALL_def)
  from C7_process_timestamp [of ?N]
  have n: "process_timestamp (Some ?N) = Inr (Some (?N\<lparr>tzinfo := Some UTC\<rparr>))" by simp
  from C7_process_timestamp [of ?A "FixedOffset 3600000000"] r
  have a: "process_timestamp (Some ?A)
             = Inr (Some (?A\<lparr>wall := wall ?A - utcoffset (FixedOffset 3600000000),
                               tzinfo := Some UTC\<rparr>))"
    and i: "\<forall>r. process_timestamp (Some ?A) = Inr r \<longrightarrow> process_timestamp r = Inr r"
    by simp_all
  from a i have "process_timestamp (Some (?A\<lparr>wall := wall ?A - utcoffset (FixedOffset 3600000000),
                               tzinfo := Some UTC\<rparr>))
             = Inr (Some (?A\<lparr>wall := wall ?A - utcoffset (FixedOffset 3600000000),
                               tzinfo := Some UTC\<rparr>))"
    by simp
  with n a show ?thesis by simp
qed

text \<open>
  C6. On every dictionary \<open>A\<close> the attribute filter returns the entries of \<open>A\<close> whose key
  is outside the deny list, in the order and with the values they have in \<open>A\<close>: a lookup
  in the result is a lookup in \<open>A\<close> restricted to the allowed keys. The deny list has
  exactly the seven keys named. The result holds none of them, and filtering it again
  changes nothing.
\<close>

theorem C6_filter_attributes:
  assumes "wf_dict A"
  shows "filter_attributes A = filter (\<lambda>(key, val). key \<notin> set KEYS_TO_FILTER_FROM_DB) A
    \<and> (\<forall>k. dict_get (filter_attributes A) k
           = (if k \<in> set KEYS_TO_FILTER_FROM_DB then None else dict_get A k))
    \<and> map fst (filter_attributes A)
           = filter (\<lambda>key. key \<notin> set KEYS_TO_FILTER_FROM_DB) (map fst A)
    \<and> wf_dict (filter_attributes A)
    \<and> set KEYS_TO_FILTER_FROM_DB
           = {''entity_id'', ''area_id'', ''entity_picture'', ''hidden'', ''icon'',
              ''device_class'', ''editable''}
    \<and> length KEYS_TO_FILTER_FROM_DB = 7 \<and> distinct KEYS_TO_FILTER_FROM_DB
    \<and> (\<forall>key \<in> set KEYS_TO_FILTER_FROM_DB. dict_get (filter_attributes A) key = None
                                          \<and> key \<notin> fst ` set (filter_attributes A))
    \<and> filter_attributes (filter_attributes A) = filter_attributes A"
proof -
  have "\<forall>key \<in> set KEYS_TO_FILTER_FROM_DB. dict_get (filter_attributes A) key = None
                                          \<and> key \<notin> fst ` set (filter_attributes A)"
    using keys_filter_attributes [OF assms] by (auto simp: dict_get_filter_attributes [OF assms])
  then show ?thesis
    using filter_attributes_wf [OF assms] dict_get_filter_attributes [OF assms]
      keys_order_filter_attributes [OF assms] wf_filter_attributes [OF assms]
      KEYS_TO_FILTER_FROM_DB_set KEYS_TO_FILTER_FROM_DB_distinct
      filter_attributes_idem [OF assms]
    by simp
qed

theorem C6_filter_attributes_witness:
  "wf_dict [(''friendly_name'', 1::int), (''icon'', 2), (''unit_of_measurement'', 3),
            (''editable'', 4)]
   \<and> filter_attributes [(''friendly_name'', 1::int), (''icon'', 2),
                        (''unit_of_measurement'', 3), (''editable'', 4)]
       = [(''friendly_name'', 1), (''unit_of_measurement'', 3)]"
proof -
  have wf: "wf_dict [(''friendly_name'', 1::int), (''icon'', 2), (''unit_of_measurement'', 3),
            (''editable'', 4)]"
    by (simp add: wf_dict_def)
  show ?thesis
    using wf C6_filter_attributes [OF wf]
    by (simp add: KEYS_TO_FILTER_FROM_DB_set)
qed

text \<open>
  C5. A state-changed event whose data has \<open>new_state\<close> absent or \<open>None\<close> gives a row
  with the empty string as state, the part of the entity identifier before its first
  \<open>"."\<close> as domain, the text \<open>{}\<close> as attributes (which decodes to the empty
  dictionary), and the event's \<open>time_fired\<close> as both \<open>last_changed\<close> and \<open>last_updated\<close>.
\<close>

theorem C5_deletion:
  assumes "ev_data event = PDict data"
    and "dict_get data ''entity_id'' = Some (PStr e)"
    and "dict_get data ''new_state'' = None \<or> dict_get data ''new_state'' = Some PNone"
  shows "\<exists>r. States_from_event event = Inr r
           \<and> entity_id r = e
           \<and> state r = []
           \<and> domain r = takeWhile (\<lambda>c. c \<noteq> CHR ''.'') e
           \<and> (\<forall>d rest. e = d @ CHR ''.'' # rest \<and> CHR ''.'' \<notin> set d \<longrightarrow> domain r = d)
           \<and> attributes r = ''{}''
           \<and> json_loads (attributes r) = Inr (PDict [])
           \<and> last_changed r = Some (ev_time_fired event)
           \<and> last_updated r = Some (ev_time_fired event)
           \<and> States.context_id r = ctx_id (ev_context event)
           \<and> States.context_user_id r = ctx_user_id (ev_context event)"
proof -
  from assms(3) have ns: "(case dict_get data ''new_state'' of None \<Rightarrow> PNone | Some v \<Rightarrow> v) = PNone"
    by auto
  show ?thesis
    by (auto simp: States_from_event_def assms(1,2) ns index0_split_entity_id
        takeWhile_prefix json_loads_empty_object)
qed

theorem C5_deletion_witness:
  "\<exists>r. States_from_event
          \<lparr>ev_event_type = ''state_changed'',
           ev_data = PDict [(''entity_id'', PStr ''light.kitchen''), (''new_state'', PNone)],
           ev_origin = Origin_local,
           ev_time_fired = \<lparr>wall = 63713433600000000, tzinfo = Some UTC\<rparr>,
           ev_context = \<lparr>ctx_user_id = None, ctx_parent_id = None, ctx_id = Some ''c1''\<rparr>\<rparr>
          = Inr r
        \<and> entity_id r = ''light.kitchen'' \<and> state r = [] \<and> domain r = ''light''
        \<and> attributes r = ''{}''
        \<and> last_changed r = Some \<lparr>wall = 63713433600000000, tzinfo = Some UTC\<rparr>
        \<and> last_updated r = Some \<lparr>wall = 63713433600000000, tzinfo = Some UTC\<rparr>"
proof -
  let ?data = "[(''entity_id'', PStr ''light.kitchen''), (''new_state'', PNone)]"
  let ?ev = "\<lparr>ev_event_type = ''state_changed'', ev_data = PDict ?data,
      ev_origin = Origin_local,
      ev_time_fired = \<lparr>wall = 63713433600000000, tzinfo = Some UTC\<rparr>,
      ev_context = \<lparr>ctx_user_id = None, ctx_parent_id = None, ctx_id = Some ''c1''\<rparr>\<rparr>"
  have h1: "ev_data ?ev = PDict ?data" by simp
  have h2: "dict_get ?data ''entity_id'' = Some (PStr ''light.kitchen'')"
    by (simp add: dict_get_def)
  have h3: "dict_get ?data ''new_state'' = None \<or> dict_get ?data ''new_state'' = Some PNone"
    by (simp add: dict_get_def)
  from C5_deletion [OF h1 h2 h3] obtain r where
    r: "States_from_event ?ev = Inr r" "entity_id r = ''light.kitchen''" "state r = []"
      "\<forall>d rest. ''light.kitchen'' = d @ CHR ''.'' # rest \<and> CHR ''.'' \<notin> set d \<longrightarrow> domain r = d"
      "attributes r = ''{}''"
      "last_changed r = Some (ev_time_fired ?ev)" "last_updated r = Some (ev_time_fired ?ev)"
    by blast
  from r(4) have "''light.kitchen'' = ''light'' @ CHR ''.'' # ''kitchen'' \<and> CHR ''.'' \<notin> set ''light''
                    \<longrightarrow> domain r = ''light''"
    by blast
  then have "domain r = ''light''" by simp
  with r show ?thesis by simp
qed

text \<open>
  C10. \<open>States.from_event\<close> reads \<open>event.data["entity_id"]\<close> with a subscript and
  \<open>new_state\<close> with \<open>get\<close>: when the key \<open>entity_id\<close> is missing the call raises
  \<open>KeyError\<close> and no row is made; when it is present \<open>KeyError\<close> is not raised, and with a
  string identifier and a \<open>new_state\<close> that is absent, \<open>None\<close> or a \<open>State\<close> a row is made.
\<close>

theorem C10_entity_id_required:
  assumes "ev_data event = PDict data"
  shows "(dict_get data ''entity_id'' = None \<longrightarrow> States_from_event event = Inl KeyError)
       \<and> (dict_get data ''entity_id'' \<noteq> None \<longrightarrow> States_from_event event \<noteq> Inl KeyError)
       \<and> (\<forall>e. dict_get data ''entity_id'' = Some (PStr e)
               \<and> (dict_get data ''new_state'' = None \<or> dict_get data ''new_state'' = Some PNone
                   \<or> (\<exists>s. dict_get data ''new_state'' = Some (PState s)))
             \<longrightarrow> (\<exists>r. States_from_event event = Inr r \<and> entity_id r = e))"
proof (intro conjI impI allI)
  assume "dict_get data ''entity_id'' = None"
  then show "States_from_event event = Inl KeyError"
    by (simp add: States_from_event_def assms)
next
  assume "dict_get data ''entity_id'' \<noteq> None"
  then obtain v where v: "dict_get data ''entity_id'' = Some v" by auto
  show "States_from_event event \<noteq> Inl KeyError"
    by (simp add: States_from_event_def assms v index0_split_entity_id State_domain_def
        split: option.split pyval.split)
next
  fix e
  assume h: "dict_get data ''entity_id'' = Some (PStr e)
               \<and> (dict_get data ''new_state'' = None \<or> dict_get data ''new_state'' = Some PNone
                   \<or> (\<exists>s. dict_get data ''new_state'' = Some (PState s)))"
  then show "\<exists>r. States_from_event event = Inr r \<and> entity_id r = e"
    by (auto simp: States_from_event_def assms index0_split_entity_id State_domain_def)
qed

theorem C10_entity_id_required_witness:
  "States_from_event
     \<lparr>ev_event_type = ''state_changed'',
      ev_data = PDict [(''new_state'', PNone)],
      ev_origin = Origin_local,
      ev_time_fired = \<lparr>wall = 63713433600000000, tzinfo = Some UTC\<rparr>,
      ev_context = \<lparr>ctx_user_id = None, ctx_parent_id = None, ctx_id = None\<rparr>\<rparr>
   = Inl KeyError
   \<and> States_from_event
     \<lparr>ev_event_type = ''state_changed'',
      ev_data = PDict [(''entity_id'', PStr ''sensor.t'')],
      ev_origin = Origin_local,
      ev_time_fired = \<lparr>wall = 63713433600000000, tzinfo = Some UTC\<rparr>,
      ev_context = \<lparr>ctx_user_id = None, ctx_parent_id = None, ctx_id = None\<rparr>\<rparr>
   \<noteq> Inl KeyError"
proof -
  let ?e1 = "\<lparr>ev_event_type = ''state_changed'',
      ev_data = PDict [(''new_state'', PNone)],
      ev_origin = Origin_local,
      ev_time_fired = \<lparr>wall = 63713433600000000, tzinfo = Some UTC\<rparr>,
      ev_context = \<lparr>ctx_user_id = None, ctx_parent_id = None, ctx_id = None\<rparr>\<rparr>"
  let ?e2 = "\<lparr>ev_event_type = ''state_changed'',
      ev_data = PDict [(''entity_id'', PStr ''sensor.t'')],
      ev_origin = Origin_local,
      ev_time_fired = \<lparr>wall = 63713433600000000, tzinfo = Some UTC\<rparr>,
      ev_context = \<lparr>ctx_user_id = None, ctx_parent_id = None, ctx_id = None\<rparr>\<rparr>"
  have a: "ev_data ?e1 = PDict [(''new_state'', PNone)]" by simp
  have b: "ev_data ?e2 = PDict [(''entity_id'', PStr ''sensor.t'')]" by simp
  from C10_entity_id_required [OF a] C10_entity_id_required [OF b]
  show ?thesis by (simp add: dict_get_def)
qed

text \<open>
  C8. When \<open>json.loads\<close> raises on the stored \<open>event_data\<close> (on the stored \<open>attributes\<close>),
  \<open>to_native\<close> logs the error and returns \<open>None\<close>; nothing is raised to the caller.
\<close>

theorem C8_malformed_json:
  "(json_loads (event_data ev_row) = Inl ValueError \<longrightarrow>
      Events_to_native utcnow ev_row = Inr (None, [''Error converting to event: %s'']))
   \<and> (json_loads (attributes st_row) = Inl ValueError \<longrightarrow>
      States_to_native utcnow st_row = Inr (None, [''Error converting row to state: %s'']))"
  by (simp add: Events_to_native_def States_to_native_def except_ValueError_def)

theorem C8_malformed_json_witness:
  "Events_to_native \<lparr>wall = 0, tzinfo = Some UTC\<rparr>
     \<lparr>Events.event_id = Some 1, event_type = ''call_service'', event_data = ''{invalid'',
      origin = ''LOCAL'', time_fired = None, created = None, context_id = None,
      context_user_id = None\<rparr>
     = Inr (None, [''Error converting to event: %s''])
   \<and> States_to_native \<lparr>wall = 0, tzinfo = Some UTC\<rparr>
     \<lparr>state_id = Some 1, domain = ''light'', entity_id = ''light.kitchen'', state = ''on'',
      attributes = ''{invalid'', event_id = None, last_changed = None, last_updated = None,
      created = None, context_id = None, context_user_id = None\<rparr>
     = Inr (None, [''Error converting row to state: %s''])"
  using C8_malformed_json [of
      "\<lparr>Events.event_id = Some 1, event_type = ''call_service'', event_data = ''{invalid'',
      origin = ''LOCAL'', time_fired = None, created = None, context_id = None,
      context_user_id = None\<rparr>"
      "\<lparr>wall = 0, tzinfo = Some UTC\<rparr>"
      "\<lparr>state_id = Some 1, domain = ''light'', entity_id = ''light.kitchen'', state = ''on'',
      attributes = ''{invalid'', event_id = None, last_changed = None, last_updated = None,
      created = None, context_id = None, context_user_id = None\<rparr>"]
  by (simp add: json_loads_invalid)


text \<open>
  C2. The claim asks that an origin string outside the enumeration be raised to the
  caller of \<open>Events.to_native\<close>. The code does not do that: the lookup
  \<open>EventOrigin(self.origin)\<close> stands inside the \<open>try\<close> block whose handler is written for
  \<open>json.loads\<close> (\<^verbatim>\<open># When json.loads fails\<close>), and the lookup raises \<open>ValueError\<close> as well.
  The row with \<open>event_data = "{}"\<close> and \<open>origin = "BOGUS"\<close> is logged as an unreadable
  event and gives \<open>None\<close>.
\<close>

theorem C2_invalid_origin_swallowed:
  "json_loads (event_data
       \<lparr>Events.event_id = Some 1, event_type = ''call_service'', event_data = ''{}'',
        origin = ''BOGUS'', time_fired = None, created = None, context_id = None,
        context_user_id = None\<rparr>) = Inr (PDict [])
   \<and> EventOrigin_of_value ''BOGUS'' = Inl ValueError
   \<and> Events_to_native \<lparr>wall = 0, tzinfo = Some UTC\<rparr>
       \<lparr>Events.event_id = Some 1, event_type = ''call_service'', event_data = ''{}'',
        origin = ''BOGUS'', time_fired = None, created = None, context_id = None,
        context_user_id = None\<rparr>
     = Inr (None, [''Error converting to event: %s''])"
  by (simp add: Events_to_native_def except_ValueError_def json_loads_empty_object
      EventOrigin_of_value_def)








text \<open>
  C4. For a state-changed event whose data is a dictionary, the payload that
  \<open>Events.from_event\<close> serialises is the event data in which an \<open>old_state\<close> or
  \<open>new_state\<close> entry is replaced by its dict form with filtered attributes exactly when
  it is a \<open>State\<close>; every other entry is the original one. Decoding the stored
  \<open>event_data\<close> gives a dictionary with the same keys in which the attributes of each
  embedded state are the remaining attribute keys in their order, none of them on the
  deny list, and every other entry is the decoded original.
\<close>

theorem C4_state_changed_payload:
  assumes "ev_event_type event = EVENT_STATE_CHANGED"
    and "ev_data event = PDict d"
    and "wf_pyval (PDict d)"
  shows "filter_state_change_event_data (PDict d) = Inr (PDict (spec_payload d))
    \<and> (\<exists>r. Events_from_event event = Inr r
          \<and> event_data r = json_dumps (PDict (spec_payload d))
          \<and> (\<exists>parsed. json_loads (event_data r) = Inr (PDict parsed)
                \<and> map fst parsed = map fst d
                \<and> (\<forall>k s. (k = ''old_state'' \<or> k = ''new_state'')
                          \<and> dict_get d k = Some (PState s)
                        \<longrightarrow> (\<exists>sd a. dict_get parsed k = Some (PDict sd)
                               \<and> dict_get sd ''attributes'' = Some (PDict a)
                               \<and> map fst a
                                   = filter (\<lambda>key. key \<notin> set KEYS_TO_FILTER_FROM_DB)
                                       (map fst (st_attributes s))
                               \<and> (\<forall>key \<in> set KEYS_TO_FILTER_FROM_DB.
                                      dict_get a key = None)))
                \<and> (\<forall>k v. dict_get d k = Some v
                          \<and> \<not> ((k = ''old_state'' \<or> k = ''new_state'') \<and> (\<exists>s. v = PState s))
                        \<longrightarrow> dict_get (spec_payload d) k = Some v
                            \<and> dict_get parsed k = Some (decoded v))))"
proof -
  from assms(3) have dist: "distinct (map fst d)" by simp
  have flt: "filter_state_change_event_data (PDict d) = Inr (PDict (spec_payload d))"
    by (rule filter_state_change_event_data_dict [OF dist])
  let ?r = "\<lparr>Events.event_id = None, event_type = ev_event_type event,
             event_data = json_dumps (PDict (spec_payload d)),
             origin = EventOrigin_str (ev_origin event),
             time_fired = Some (ev_time_fired event), created = None,
             context_id = ctx_id (ev_context event),
             context_user_id = ctx_user_id (ev_context event)\<rparr>"
  let ?parsed = "map (\<lambda>(k, v). (k, decoded v)) (spec_payload d)"
  have ev: "Events_from_event event = Inr ?r"
    by (simp add: Events_from_event_def assms(1,2) flt)
  have loads: "json_loads (event_data ?r) = Inr (PDict ?parsed)"
    using json_loads_dumps [OF wf_spec_payload [OF assms(3)]] by (simp add: decoded_PDict)
  have keys: "map fst ?parsed = map fst d"
    by (simp add: spec_payload_def comp_def case_prod_unfold)
  have get: "dict_get ?parsed k = map_option (\<lambda>v. decoded (spec_payload_value k v)) (dict_get d k)"
    for k
  proof -
    have "?parsed = map (\<lambda>(k, v). (k, decoded (spec_payload_value k v))) d"
      by (simp add: spec_payload_def comp_def case_prod_unfold)
    then show ?thesis
      using dict_get_map_items [of "\<lambda>k v. decoded (spec_payload_value k v)" d k] by simp
  qed
  have states: "\<exists>sd a. dict_get ?parsed k = Some (PDict sd)
                 \<and> dict_get sd ''attributes'' = Some (PDict a)
                 \<and> map fst a = filter (\<lambda>key. key \<notin> set KEYS_TO_FILTER_FROM_DB)
                                  (map fst (st_attributes s))
                 \<and> (\<forall>key \<in> set KEYS_TO_FILTER_FROM_DB. dict_get a key = None)"
    if k: "k = ''old_state'' \<or> k = ''new_state''" and s: "dict_get d k = Some (PState s)"
    for k s
  proof -
    from s have "(k, PState s) \<in> set d" by (auto simp: dict_get_def dest: map_of_SomeD)
    with assms(3) have "wf_pyval (PState s)" by (auto simp: list_all_iff)
    then have wfa: "wf_dict (st_attributes s)" by (cases s) (simp add: wf_dict_def)
    from decoded_filtered_state_dict [of s] obtain sd where
      sd: "decoded (filtered_state_dict s) = PDict sd"
        "dict_get sd ''attributes''
           = Some (PDict (map (\<lambda>(k, v). (k, decoded v)) (filter_attributes (st_attributes s))))"
      by blast
    let ?a = "map (\<lambda>(k, v). (k, decoded v)) (filter_attributes (st_attributes s))"
    have "dict_get ?parsed k = Some (PDict sd)"
      using k s sd(1) by (auto simp: get spec_payload_value_def)
    moreover have "map fst ?a = filter (\<lambda>key. key \<notin> set KEYS_TO_FILTER_FROM_DB)
                                  (map fst (st_attributes s))"
      using keys_order_filter_attributes [OF wfa] by (simp add: comp_def case_prod_unfold)
    moreover have "\<forall>key \<in> set KEYS_TO_FILTER_FROM_DB. dict_get ?a key = None"
      using denied_keys_absent [OF wfa] by blast
    ultimately show ?thesis using sd(2) by blast
  qed
  have others: "dict_get (spec_payload d) k = Some v \<and> dict_get ?parsed k = Some (decoded v)"
    if v: "dict_get d k = Some v"
      and n: "\<not> ((k = ''old_state'' \<or> k = ''new_state'') \<and> (\<exists>s. v = PState s))"
    for k v
  proof -
    from n have same: "spec_payload_value k v = v"
      by (cases v) (auto simp: spec_payload_value_def)
    have "dict_get (spec_payload d) k = map_option (spec_payload_value k) (dict_get d k)"
      unfolding spec_payload_def by (rule dict_get_map_items)
    with v same show ?thesis by (simp add: get)
  qed
  have P3: "\<forall>k s. (k = ''old_state'' \<or> k = ''new_state'') \<and> dict_get d k = Some (PState s)
              \<longrightarrow> (\<exists>sd a. dict_get ?parsed k = Some (PDict sd)
                     \<and> dict_get sd ''attributes'' = Some (PDict a)
                     \<and> map fst a = filter (\<lambda>key. key \<notin> set KEYS_TO_FILTER_FROM_DB)
                                      (map fst (st_attributes s))
                     \<and> (\<forall>key \<in> set KEYS_TO_FILTER_FROM_DB. dict_get a key = None))"
    using states by blast
  have P4: "\<forall>k v. dict_get d k = Some v
              \<and> \<not> ((k = ''old_state'' \<or> k = ''new_state'') \<and> (\<exists>s. v = PState s))
              \<longrightarrow> dict_get (spec_payload d) k = Some v
                  \<and> dict_get ?parsed k = Some (decoded v)"
    using others by blast
  show ?thesis
  proof (intro conjI)
    show "filter_state_change_event_data (PDict d) = Inr (PDict (spec_payload d))"
      by (rule flt)
    show "\<exists>r. Events_from_event event = Inr r
          \<and> event_data r = json_dumps (PDict (spec_payload d))
          \<and> (\<exists>parsed. json_loads (event_data r) = Inr (PDict parsed)
                \<and> map fst parsed = map fst d
                \<and> (\<forall>k s. (k = ''old_state'' \<or> k = ''new_state'')
                          \<and> dict_get d k = Some (PState s)
                        \<longrightarrow> (\<exists>sd a. dict_get parsed k = Some (PDict sd)
                               \<and> dict_get sd ''attributes'' = Some (PDict a)
                               \<and> map fst a
                                   = filter (\<lambda>key. key \<notin> set KEYS_TO_FILTER_FROM_DB)
                                       (map fst (st_attributes s))
                               \<and> (\<forall>key \<in> set KEYS_TO_FILTER_FROM_DB.
                                      dict_get a key = None)))
                \<and> (\<forall>k v. dict_get d k = Some v
                          \<and> \<not> ((k = ''old_state'' \<or> k = ''new_state'') \<and> (\<exists>s. v = PState s))
                        \<longrightarrow> dict_get (spec_payload d) k = Some v
                            \<and> dict_get parsed k = Some (decoded v)))"
    proof (intro exI [of _ ?r] conjI)
      show "Events_from_event event = Inr ?r" by (rule ev)
      show "event_data ?r = json_dumps (PDict (spec_payload d))" by simp
      show "\<exists>parsed. json_loads (event_data ?r) = Inr (PDict parsed)
                \<and> map fst parsed = map fst d
                \<and> (\<forall>k s. (k = ''old_state'' \<or> k = ''new_state'')
                          \<and> dict_get d k = Some (PState s)
                        \<longrightarrow> (\<exists>sd a. dict_get parsed k = Some (PDict sd)
                               \<and> dict_get sd ''attributes'' = Some (PDict a)
                               \<and> map fst a
                                   = filter (\<lambda>key. key \<notin> set KEYS_TO_FILTER_FROM_DB)
                                       (map fst (st_attributes s))
                               \<and> (\<forall>key \<in> set KEYS_TO_FILTER_FROM_DB.
                                      dict_get a key = None)))
                \<and> (\<forall>k v. dict_get d k = Some v
                          \<and> \<not> ((k = ''old_state'' \<or> k = ''new_state'') \<and> (\<exists>s. v = PState s))
                        \<longrightarrow> dict_get (spec_payload d) k = Some v
                            \<and> dict_get parsed k = Some (decoded v))"
        using loads keys P3 P4 by (intro exI [of _ ?parsed] conjI)
    qed
  qed
qed

theorem C4_state_changed_payload_witness:
  "\<exists>r parsed sd a.
     Events_from_event
       \<lparr>ev_event_type = ''state_changed'',
        ev_data = PDict
          [(''entity_id'', PStr ''light.kitchen''),
           (''old_state'', PNone),
           (''new_state'', PState (StateObj ''light.kitchen'' ''on''
              [(''friendly_name'', PStr ''Kitchen''), (''icon'', PStr ''mdi:lamp'')]
              \<lparr>wall = 63713433600000000, tzinfo = Some UTC\<rparr>
              \<lparr>wall = 63713433600000000, tzinfo = Some UTC\<rparr>
              \<lparr>ctx_user_id = None, ctx_parent_id = None, ctx_id = Some ''c1''\<rparr>))],
        ev_origin = Origin_local,
        ev_time_fired = \<lparr>wall = 63713433600000000, tzinfo = Some UTC\<rparr>,
        ev_context = \<lparr>ctx_user_id = None, ctx_parent_id = None, ctx_id = Some ''c1''\<rparr>\<rparr>
       = Inr r
     \<and> json_loads (event_data r) = Inr (PDict parsed)
     \<and> map fst parsed = [''entity_id'', ''old_state'', ''new_state'']
     \<and> dict_get parsed ''new_state'' = Some (PDict sd)
     \<and> dict_get sd ''attributes'' = Some (PDict a)
     \<and> map fst a = [''friendly_name'']
     \<and> dict_get a ''icon'' = None
     \<and> dict_get parsed ''entity_id'' = Some (PStr ''light.kitchen'')
     \<and> dict_get parsed ''old_state'' = Some PNone"
proof -
  let ?T = "\<lparr>wall = 63713433600000000, tzinfo = Some UTC\<rparr>"
  let ?C = "\<lparr>ctx_user_id = None, ctx_parent_id = None, ctx_id = Some ''c1''\<rparr>"
  let ?S = "StateObj ''light.kitchen'' ''on''
              [(''friendly_name'', PStr ''Kitchen''), (''icon'', PStr ''mdi:lamp'')] ?T ?T ?C"
  let ?d = "[(''entity_id'', PStr ''light.kitchen''), (''old_state'', PNone),
             (''new_state'', PState ?S)]"
  let ?ev = "\<lparr>ev_event_type = ''state_changed'', ev_data = PDict ?d,
              ev_origin = Origin_local, ev_time_fired = ?T, ev_context = ?C\<rparr>"
  have h1: "ev_event_type ?ev = EVENT_STATE_CHANGED" by (simp add: EVENT_STATE_CHANGED_def)
  have h2: "ev_data ?ev = PDict ?d" by simp
  have h3: "wf_pyval (PDict ?d)" by simp
  from C4_state_changed_payload [OF h1 h2 h3] obtain r parsed where
    r: "Events_from_event ?ev = Inr r"
    and p: "json_loads (event_data r) = Inr (PDict parsed)"
    and k: "map fst parsed = map fst ?d"
    and st: "\<forall>k s. (k = ''old_state'' \<or> k = ''new_state'') \<and> dict_get ?d k = Some (PState s)
              \<longrightarrow> (\<exists>sd a. dict_get parsed k = Some (PDict sd)
                     \<and> dict_get sd ''attributes'' = Some (PDict a)
                     \<and> map fst a = filter (\<lambda>key. key \<notin> set KEYS_TO_FILTER_FROM_DB)
                                      (map fst (st_attributes s))
                     \<and> (\<forall>key \<in> set KEYS_TO_FILTER_FROM_DB. dict_get a key = None))"
    and ot: "\<forall>k v. dict_get ?d k = Some v
              \<and> \<not> ((k = ''old_state'' \<or> k = ''new_state'') \<and> (\<exists>s. v = PState s))
              \<longrightarrow> dict_get (spec_payload ?d) k = Some v
                  \<and> dict_get parsed k = Some (decoded v)"
    by (elim exE conjE) (rule that; assumption)
  have ns: "dict_get ?d ''new_state'' = Some (PState ?S)" by (simp add: dict_get_def)
  have prem: "(''new_state'' = ''old_state'' \<or> ''new_state'' = ''new_state'')
                  \<and> dict_get ?d ''new_state'' = Some (PState ?S)"
    by (simp add: dict_get_def)
  from st have "(''new_state'' = ''old_state'' \<or> ''new_state'' = ''new_state'')
                  \<and> dict_get ?d ''new_state'' = Some (PState ?S)
              \<longrightarrow> (\<exists>sd a. dict_get parsed ''new_state'' = Some (PDict sd)
                     \<and> dict_get sd ''attributes'' = Some (PDict a)
                     \<and> map fst a = filter (\<lambda>key. key \<notin> set KEYS_TO_FILTER_FROM_DB)
                                      (map fst (st_attributes ?S))
                     \<and> (\<forall>key \<in> set KEYS_TO_FILTER_FROM_DB. dict_get a key = None))"
    by (elim allE)
  from this prem have "\<exists>sd a. dict_get parsed ''new_state'' = Some (PDict sd)
                     \<and> dict_get sd ''attributes'' = Some (PDict a)
                     \<and> map fst a = filter (\<lambda>key. key \<notin> set KEYS_TO_FILTER_FROM_DB)
                                      (map fst (st_attributes ?S))
                     \<and> (\<forall>key \<in> set KEYS_TO_FILTER_FROM_DB. dict_get a key = None)"
    by (rule mp)
  then obtain sd a where
    sd: "dict_get parsed ''new_state'' = Some (PDict sd)"
      "dict_get sd ''attributes'' = Some (PDict a)"
      "map fst a = filter (\<lambda>key. key \<notin> set KEYS_TO_FILTER_FROM_DB) (map fst (st_attributes ?S))"
      "\<forall>key \<in> set KEYS_TO_FILTER_FROM_DB. dict_get a key = None"
    by (elim exE conjE) (rule that; assumption)
  from sd(3) have a1: "map fst a = [''friendly_name'']"
    by (simp add: KEYS_TO_FILTER_FROM_DB_set)
  from sd(4) have a2: "dict_get a ''icon'' = None"
    by (simp add: KEYS_TO_FILTER_FROM_DB_set)
  have ge: "dict_get ?d ''entity_id'' = Some (PStr ''light.kitchen'')" by (simp add: dict_get_def)
  from ot have "dict_get ?d ''entity_id'' = Some (PStr ''light.kitchen'')
              \<and> \<not> ((''entity_id'' = ''old_state'' \<or> ''entity_id'' = ''new_state'')
                    \<and> (\<exists>s. PStr ''light.kitchen'' = PState s))
              \<longrightarrow> dict_get (spec_payload ?d) ''entity_id'' = Some (PStr ''light.kitchen'')
                  \<and> dict_get parsed ''entity_id'' = Some (decoded (PStr ''light.kitchen''))"
    by (elim allE)
  with ge have e: "dict_get parsed ''entity_id'' = Some (decoded (PStr ''light.kitchen''))"
    by simp
  have go: "dict_get ?d ''old_state'' = Some PNone" by (simp add: dict_get_def)
  from ot have "dict_get ?d ''old_state'' = Some PNone
              \<and> \<not> ((''old_state'' = ''old_state'' \<or> ''old_state'' = ''new_state'')
                    \<and> (\<exists>s. PNone = PState s))
              \<longrightarrow> dict_get (spec_payload ?d) ''old_state'' = Some PNone
                  \<and> dict_get parsed ''old_state'' = Some (decoded PNone)"
    by (elim allE)
  with go have o: "dict_get parsed ''old_state'' = Some (decoded PNone)"
    by simp
  from r p k sd(1,2) a1 a2 e o show ?thesis
    by (intro exI [of _ r] exI [of _ parsed] exI [of _ sd] exI [of _ a])
       (simp add: decoded_def)
qed

text \<open>
  Claim C9. For a state-changed event, and for any other event, \<open>Events.from_event\<close>
  leaves every object that existed before the call as it was, whether it returns a row
  or raises: the store after the call is the store before it with new objects added.
  So the data mapping of the event, the \<open>State\<close> objects under \<open>old_state\<close> and
  \<open>new_state\<close> and their attributes mappings hold what they held, and every value
  reads as the same tree after the call as before. The copy that the code takes of the
  data mapping is one level deep; the two assignments of the loop go to this copy and to
  the dictionary that \<open>as_dict()\<close> has just built, the filtered attributes are a new
  dictionary.
\<close>

theorem C9_input_unchanged:
  assumes "Events_from_event_h h event = (h', res)"
  shows "extends h h'
       \<and> (\<forall>a obj. lookup h a = Some obj \<longrightarrow> lookup h' a = Some obj)
       \<and> (\<forall>n v x. read n h v = Some x \<longrightarrow> read n h' v = Some x)"
proof -
  from Events_from_event_h_extends [OF assms] have e: "extends h h'" .
  then show ?thesis
    by (auto intro: extends_lookup read_extends)
qed

theorem C9_input_unchanged_witness:
  "\<exists>h' r.
     Events_from_event_h
       [HDict [(''brightness'', HInt 180), (''icon'', HStr ''mdi:lamp'')],
        HState ''light.kitchen'' ''off'' 0
          \<lparr>wall = 63713433600000000, tzinfo = Some UTC\<rparr>
          \<lparr>wall = 63713433600000000, tzinfo = Some UTC\<rparr>
          \<lparr>ctx_user_id = None, ctx_parent_id = None, ctx_id = Some ''c0''\<rparr>,
        HDict [(''brightness'', HInt 255), (''icon'', HStr ''mdi:lamp'')],
        HState ''light.kitchen'' ''on'' 2
          \<lparr>wall = 63713433660000000, tzinfo = Some UTC\<rparr>
          \<lparr>wall = 63713433660000000, tzinfo = Some UTC\<rparr>
          \<lparr>ctx_user_id = None, ctx_parent_id = None, ctx_id = Some ''c1''\<rparr>,
        HDict [(''entity_id'', HStr ''light.kitchen''), (''old_state'', Ref 1),
               (''new_state'', Ref 3)]]
       \<lparr>ev_event_type = ''state_changed'', ev_data = Ref 4, ev_origin = Origin_local,
        ev_time_fired = \<lparr>wall = 63713433660000000, tzinfo = Some UTC\<rparr>,
        ev_context = \<lparr>ctx_user_id = None, ctx_parent_id = None, ctx_id = Some ''c1''\<rparr>\<rparr>
       = (h', Inr r)
     \<and> length h' = 14
     \<and> take 5 h' =
         [HDict [(''brightness'', HInt 180), (''icon'', HStr ''mdi:lamp'')],
          HState ''light.kitchen'' ''off'' 0
            \<lparr>wall = 63713433600000000, tzinfo = Some UTC\<rparr>
            \<lparr>wall = 63713433600000000, tzinfo = Some UTC\<rparr>
            \<lparr>ctx_user_id = None, ctx_parent_id = None, ctx_id = Some ''c0''\<rparr>,
          HDict [(''brightness'', HInt 255), (''icon'', HStr ''mdi:lamp'')],
          HState ''light.kitchen'' ''on'' 2
            \<lparr>wall = 63713433660000000, tzinfo = Some UTC\<rparr>
            \<lparr>wall = 63713433660000000, tzinfo = Some UTC\<rparr>
            \<lparr>ctx_user_id = None, ctx_parent_id = None, ctx_id = Some ''c1''\<rparr>,
          HDict [(''entity_id'', HStr ''light.kitchen''), (''old_state'', Ref 1),
                 (''new_state'', Ref 3)]]
     \<and> read 2 h' (Ref 3) =
         Some (PState (StateObj ''light.kitchen'' ''on''
           [(''brightness'', PInt 255), (''icon'', PStr ''mdi:lamp'')]
           \<lparr>wall = 63713433660000000, tzinfo = Some UTC\<rparr>
           \<lparr>wall = 63713433660000000, tzinfo = Some UTC\<rparr>
           \<lparr>ctx_user_id = None, ctx_parent_id = None, ctx_id = Some ''c1''\<rparr>))
     \<and> lookup h' 13 = Some (HDict [(''brightness'', HInt 255)])"
proof -
  let ?T0 = "\<lparr>wall = 63713433600000000, tzinfo = Some UTC\<rparr>"
  let ?T1 = "\<lparr>wall = 63713433660000000, tzinfo = Some UTC\<rparr>"
  let ?C0 = "\<lparr>ctx_user_id = None, ctx_parent_id = None, ctx_id = Some ''c0''\<rparr>"
  let ?C1 = "\<lparr>ctx_user_id = None, ctx_parent_id = None, ctx_id = Some ''c1''\<rparr>"
  let ?h = "[HDict [(''brightness'', HInt 180), (''icon'', HStr ''mdi:lamp'')],
             HState ''light.kitchen'' ''off'' 0 ?T0 ?T0 ?C0,
             HDict [(''brightness'', HInt 255), (''icon'', HStr ''mdi:lamp'')],
             HState ''light.kitchen'' ''on'' 2 ?T1 ?T1 ?C1,
             HDict [(''entity_id'', HStr ''light.kitchen''), (''old_state'', Ref 1),
                    (''new_state'', Ref 3)]]"
  let ?ev = "\<lparr>ev_event_type = ''state_changed'', ev_data = Ref 4, ev_origin = Origin_local,
              ev_time_fired = ?T1, ev_context = ?C1\<rparr>"
  obtain h' res where call: "Events_from_event_h ?h ?ev = (h', res)"
    by (cases "Events_from_event_h ?h ?ev")
  have "\<not> isl (snd (Events_from_event_h ?h ?ev))
      \<and> length (fst (Events_from_event_h ?h ?ev)) = 14
      \<and> lookup (fst (Events_from_event_h ?h ?ev)) 13 = Some (HDict [(''brightness'', HInt 255)])"
    by code_simp
  with call obtain r where res: "res = Inr r" and len: "length h' = 14"
    and new: "lookup h' 13 = Some (HDict [(''brightness'', HInt 255)])"
    by (cases res) simp_all
  from C9_input_unchanged [OF call]
  have e: "extends ?h h'"
    and rd: "\<And>n v x. read n ?h v = Some x \<Longrightarrow> read n h' v = Some x"
    by blast+
  have "length ?h = 5" by simp
  with e have tk: "take 5 h' = ?h" unfolding extends_def by metis
  have "read 2 ?h (Ref 3) = Some (PState (StateObj ''light.kitchen'' ''on''
           [(''brightness'', PInt 255), (''icon'', PStr ''mdi:lamp'')] ?T1 ?T1 ?C1))"
    by code_simp
  from rd [OF this] call res len tk new show ?thesis by simp
qed

end
